theory Spec2Isabelle
  imports Complex_Main "HOL-Library.AList"
begin

section \<open>Strings and characters\<close>

text \<open>
  A JavaScript string is a sequence of UTF-16 code units. It is modelled as a
  \<^typ>\<open>string\<close>, each \<^typ>\<open>char\<close> standing for one code unit below 256
  (the Latin-1 range, which holds every character the time pattern can match).
  \<open>isDigit\<close> is the regular expression class \<open>\d\<close> (the ten ASCII digits);
  \<open>isSpace\<close> is the class \<open>\s\<close>, which is also the set of characters removed by
  \<open>String.prototype.trim\<close>: tab, line feed, vertical tab, form feed, carriage
  return, space and the no-break space, the members of the class below 256.
\<close>

definition isDigit :: "char \<Rightarrow> bool" where
  "isDigit c = (48 \<le> (of_char c :: nat) \<and> (of_char c :: nat) \<le> 57)"

definition isSpace :: "char \<Rightarrow> bool" where
  "isSpace c = ((of_char c :: nat) \<in> {9, 10, 11, 12, 13, 32, 160})"

text \<open>\<open>s.trim()\<close>.\<close>

definition trim :: "string \<Rightarrow> string" where
  "trim s = rev (dropWhile isSpace (rev (dropWhile isSpace s)))"

text \<open>
  \<open>parseInt(s, 10)\<close> on a non-empty string of decimal digits: the value of the
  numeral. Capture groups 1 and 2 of the time pattern are always such strings
  (lemma \<open>matchAt_sound\<close> below).
\<close>

definition digitVal :: "char \<Rightarrow> nat" where
  "digitVal c = (of_char c :: nat) - 48"

definition digitsValue :: "string \<Rightarrow> nat" where
  "digitsValue s = foldl (\<lambda>n c. 10 * n + digitVal c) 0 s"

text \<open>
  \<open>toUpperCase\<close> on ASCII letters. The program applies it to capture group 3 only,
  which holds two ASCII letters.
\<close>

definition upperChar :: "char \<Rightarrow> char" where
  "upperChar c =
     (case map_of (zip ''abcdefghijklmnopqrstuvwxyz'' ''ABCDEFGHIJKLMNOPQRSTUVWXYZ'') c of
        Some u \<Rightarrow> u
      | None \<Rightarrow> c)"

definition toUpperCase :: "string \<Rightarrow> string" where
  "toUpperCase s = map upperChar s"

section \<open>Time Parser\<close>

text \<open>
  \<open>timeStr.match(/(\d{1,2}):(\d{2})\s*(AM|PM)?/i)\<close>, piece by piece.

  \<open>hourAlternatives\<close> lists the ways \<open>(\d{1,2})\<close> can match at the start of a
  string, in the order a backtracking matcher tries them: the quantifier is greedy, so
  two digits first, then one.
  \<open>colonMinutes\<close> is \<open>:(\d{2})\<close>.
  \<open>marker\<close> is \<open>\s*(AM|PM)?\<close>: the greedy \<open>\s*\<close> takes the whole run of
  white space, then the optional group takes the two letters when they are there (in
  either case, by the flag \<open>i\<close>) and is undefined otherwise. This tail never fails,
  so the matcher never comes back to give white space up.
\<close>

definition hourAlternatives :: "string \<Rightarrow> (string \<times> string) list" where
  "hourAlternatives s =
     (case s of
        [] \<Rightarrow> []
      | a # r \<Rightarrow>
          (case r of
             [] \<Rightarrow> []
           | b # r' \<Rightarrow> (if isDigit a \<and> isDigit b then [([a, b], r')] else []))
          @ (if isDigit a then [([a], r)] else []))"

definition colonMinutes :: "string \<Rightarrow> (string \<times> string) option" where
  "colonMinutes s =
     (case s of
        c # d # e # r \<Rightarrow>
          (if c = CHR '':'' \<and> isDigit d \<and> isDigit e then Some ([d, e], r) else None)
      | _ \<Rightarrow> None)"

definition isAP :: "char \<Rightarrow> bool" where
  "isAP c = (c = CHR ''A'' \<or> c = CHR ''a'' \<or> c = CHR ''P'' \<or> c = CHR ''p'')"

definition isM :: "char \<Rightarrow> bool" where
  "isM c = (c = CHR ''M'' \<or> c = CHR ''m'')"

definition marker :: "string \<Rightarrow> string option" where
  "marker s =
     (case dropWhile isSpace s of
        a # m # _ \<Rightarrow> (if isAP a \<and> isM m then Some [a, m] else None)
      | _ \<Rightarrow> None)"

fun firstSome :: "('a \<Rightarrow> 'b option) \<Rightarrow> 'a list \<Rightarrow> 'b option" where
  "firstSome f [] = None"
| "firstSome f (x # xs) = (case f x of Some y \<Rightarrow> Some y | None \<Rightarrow> firstSome f xs)"

text \<open>
  The pattern tried at the start of the string: the capture groups
  \<open>(timeMatch[1], timeMatch[2], timeMatch[3])\<close>, the third being undefined (\<open>None\<close>)
  when no marker follows.
\<close>

definition matchAt :: "string \<Rightarrow> (string \<times> string \<times> string option) option" where
  "matchAt s =
     firstSome (\<lambda>(h, r). case colonMinutes r of
                             None \<Rightarrow> None
                           | Some (m, r') \<Rightarrow> Some (h, m, marker r'))
               (hourAlternatives s)"

text \<open>\<open>match\<close> without the flag \<open>g\<close>: the leftmost position where the pattern matches.\<close>

fun timeMatch :: "string \<Rightarrow> (string \<times> string \<times> string option) option" where
  "timeMatch [] = matchAt []"
| "timeMatch (c # cs) =
     (case matchAt (c # cs) of Some g \<Rightarrow> Some g | None \<Rightarrow> timeMatch cs)"

text \<open>
  \<open>extractTimeFromString\<close> of the workflow page and of the single-page application
  (the two copies are the same). The fields \<open>hour\<close> and \<open>period\<close> of the result
  are \<open>ti_hour\<close> and \<open>ti_period\<close> here; \<open>period\<close> is
  \<open>timeMatch[3]?.toUpperCase() || ''\<close>.
\<close>

record TimeInfo =
  ti_hour :: nat
  ti_period :: string

definition adjustHour :: "nat \<Rightarrow> string \<Rightarrow> nat" where
  "adjustHour h p =
     (let h1 = (if p = ''PM'' \<and> h \<noteq> 12 then h + 12 else h)
      in if p = ''AM'' \<and> h1 = 12 then 0 else h1)"

definition extractTimeFromString :: "string \<Rightarrow> TimeInfo option" where
  "extractTimeFromString timeStr =
     (case timeMatch timeStr of
        None \<Rightarrow> None
      | Some (g1, g2, g3) \<Rightarrow>
          (let h = digitsValue g1;
               p = (case g3 of None \<Rightarrow> [] | Some x \<Rightarrow> toUpperCase x)
           in Some \<lparr>ti_hour = adjustHour h p, ti_period = p\<rparr>))"

text \<open>
  \<open>a <= b\<close> on two strings: the lexicographic order of the code units.
  \<open>a >= b\<close> is \<open>strLe b a\<close>.
\<close>

fun strLe :: "string \<Rightarrow> string \<Rightarrow> bool" where
  "strLe [] ys = True"
| "strLe (x # xs) [] = False"
| "strLe (x # xs) (y # ys) =
     ((of_char x :: nat) < of_char y \<or> (x = y \<and> strLe xs ys))"

text \<open>\<open>s.split(c)\<close> for a one-character separator: never the empty array.\<close>

fun splitOn :: "char \<Rightarrow> string \<Rightarrow> string list" where
  "splitOn c [] = [[]]"
| "splitOn c (x # xs) =
     (if x = c then [] # splitOn c xs
      else (case splitOn c xs of [] \<Rightarrow> [[x]] | p # ps \<Rightarrow> (x # p) # ps))"

text \<open>
  \<open>Number(s)\<close> on the strings this program hands to it: the pieces, cut at the
  colons, of an hour label or of the value of a time input. Such a piece is
  a string of decimal digits, or empty, and \<open>Number('')\<close> is 0. \<open>None\<close> is \<open>NaN\<close>,
  which is also what \<open>undefined\<close> becomes in arithmetic and what makes every
  comparison false. Signs, fractions, exponents, surrounding white space and the
  other literals \<open>Number\<close> reads are outside this model.
\<close>

definition jsNumber :: "string \<Rightarrow> nat option" where
  "jsNumber s = (if list_all isDigit s then Some (digitsValue s) else None)"

definition nanAdd :: "nat option \<Rightarrow> nat option \<Rightarrow> nat option" where
  "nanAdd a b = (case a of None \<Rightarrow> None | Some x \<Rightarrow> (case b of None \<Rightarrow> None | Some y \<Rightarrow> Some (x + y)))"

definition nanMul :: "nat option \<Rightarrow> nat option \<Rightarrow> nat option" where
  "nanMul a b = (case a of None \<Rightarrow> None | Some x \<Rightarrow> (case b of None \<Rightarrow> None | Some y \<Rightarrow> Some (x * y)))"

definition nanLe :: "nat option \<Rightarrow> nat option \<Rightarrow> bool" where
  "nanLe a b = (case a of None \<Rightarrow> False | Some x \<Rightarrow> (case b of None \<Rightarrow> False | Some y \<Rightarrow> x \<le> y))"

text \<open>Element \<open>i\<close> of an array of numbers, \<open>undefined\<close> beyond its end.\<close>

definition element :: "nat option list \<Rightarrow> nat \<Rightarrow> nat option" where
  "element xs i = (if i < length xs then xs ! i else None)"

text \<open>\<open>n.toString()\<close> for a non-negative integer, and \<open>s.padStart(2, '0')\<close>.\<close>

definition digitChar :: "nat \<Rightarrow> char" where
  "digitChar n = ''0123456789'' ! n"

function natToString :: "nat \<Rightarrow> string" where
  "natToString n =
     (if n < 10 then [digitChar n] else natToString (n div 10) @ [digitChar (n mod 10)])"
  by pat_completeness auto
termination
  by (relation "measure id") auto

declare natToString.simps [simp del]

definition padStart2 :: "string \<Rightarrow> string" where
  "padStart2 s = replicate (2 - length s) CHR ''0'' @ s"

text \<open>
  \<open>xs.sort(cmp)\<close>: the sort is stable, so for a comparator that is a consistent
  order its result is that of any stable sort; here, insertion from the right.
  \<open>defaultCompare\<close> is the order of \<open>sort()\<close> without a comparator on strings.
\<close>

fun insertBy :: "('a \<Rightarrow> 'a \<Rightarrow> int) \<Rightarrow> 'a \<Rightarrow> 'a list \<Rightarrow> 'a list" where
  "insertBy cmp x [] = [x]"
| "insertBy cmp x (y # ys) = (if cmp x y \<le> 0 then x # y # ys else y # insertBy cmp x ys)"

definition sortBy :: "('a \<Rightarrow> 'a \<Rightarrow> int) \<Rightarrow> 'a list \<Rightarrow> 'a list" where
  "sortBy cmp xs = foldr (insertBy cmp) xs []"

definition defaultCompare :: "string \<Rightarrow> string \<Rightarrow> int" where
  "defaultCompare a b = (if a = b then 0 else if strLe a b then - 1 else 1)"

text \<open>\<open>set.add(x)\<close> on a \<open>Set\<close>, kept as the list of its members in insertion order.\<close>

definition setAdd :: "'a \<Rightarrow> 'a list \<Rightarrow> 'a list" where
  "setAdd x xs = (if x \<in> set xs then xs else xs @ [x])"

section \<open>Record Normalizer and Hourly Aggregator\<close>

text \<open>
  A raw row maps field names to strings; a field may be absent. \<open>orDefault v d\<close> is
  \<open>v || d\<close>: the default replaces an absent field and the empty string.
\<close>

type_synonym row = "string \<rightharpoonup> string"

definition orDefault :: "string option \<Rightarrow> string \<Rightarrow> string" where
  "orDefault v d = (case v of None \<Rightarrow> d | Some s \<Rightarrow> (if s = [] then d else s))"

record EntryDetail =
  timestamp :: string
  date :: string
  patientId :: string
  patientName :: string
  modality :: string
  description :: string
  status :: string
  accession :: string
  bodyPart :: string
  reportSignedBy :: string

record HourlyData =
  hour :: string
  hour12 :: string
  count :: nat
  entries :: "EntryDetail list"

datatype TimeFormat = Format12 | Format24

definition formatHour :: "nat \<Rightarrow> TimeFormat \<Rightarrow> string \<times> string" where
  "formatHour h format =
     (let hour24 = padStart2 (natToString h);
          period = (if h < 12 then ''AM'' else ''PM'');
          h12 = padStart2 (if h = 0 then ''12''
                           else if h > 12 then natToString (h - 12) else natToString h)
      in (hour24 @ '':00'', h12 @ '':00 '' @ period))"

text \<open>
  The body of the loop of \<open>processTimestamps\<close>, up to the study record: the hour of
  the bucket and the \<open>entryDetail\<close>, or \<open>None\<close> where the callback returns early. The
  hour is a natural number, so the test \<open>timeInfo.hour < 0\<close> never holds.
\<close>

definition studyRecordOf :: "row \<Rightarrow> (nat \<times> EntryDetail) option" where
  "studyRecordOf row =
     (case map_option trim (row ''Time'') of
        None \<Rightarrow> None
      | Some timeStr \<Rightarrow>
          if timeStr = [] then None
          else (case extractTimeFromString timeStr of
                  None \<Rightarrow> None
                | Some timeInfo \<Rightarrow>
                    if ti_hour timeInfo > 23 then None
                    else Some (ti_hour timeInfo,
                      \<lparr>timestamp = orDefault (row ''Date'') ''N/A'' @ '' '' @ timeStr,
                       date = orDefault (row ''Date'') ''N/A'',
                       patientId = orDefault (row ''Patient ID'') ''N/A'',
                       patientName = orDefault (row ''Patient Name'') ''N/A'',
                       modality = orDefault (row ''Mod.'') ''N/A'',
                       description = orDefault (row ''Description'') ''N/A'',
                       status = orDefault (row ''Status'') ''N/A'',
                       accession = orDefault (row ''Accession'') ''N/A'',
                       bodyPart = orDefault (row ''Body Part'') ''N/A'',
                       reportSignedBy = orDefault (row ''Report Signed By'') []\<rparr>)))"

text \<open>
  The state of the loop: the map \<open>hourData\<close> from hour to \<open>(count, entries)\<close>, kept
  as the list of its pairs in insertion order, the three sets of filter options and
  the counter \<open>validEntries\<close>.
\<close>

record IngestState =
  hourData :: "(nat \<times> nat \<times> EntryDetail list) list"
  modalities :: "string list"
  statuses :: "string list"
  signers :: "string list"
  validEntries :: nat

definition initialState :: IngestState where
  "initialState =
     \<lparr>hourData = map (\<lambda>i. (i, 0, [])) [0..<24],
      modalities = [], statuses = [], signers = [], validEntries = 0\<rparr>"

text \<open>
  One row. Were the hour missing from \<open>hourData\<close>, \<open>current.count++\<close> would raise
  a \<open>TypeError\<close>, caught by the \<open>try\<close> around the body after the three sets have
  been extended: the branch \<open>None\<close>.
\<close>

definition processRow :: "row \<Rightarrow> IngestState \<Rightarrow> IngestState" where
  "processRow row st =
     (case studyRecordOf row of
        None \<Rightarrow> st
      | Some (h, entryDetail) \<Rightarrow>
          (let st1 = st\<lparr>modalities := setAdd (modality entryDetail) (modalities st),
                         statuses := setAdd (status entryDetail) (statuses st),
                         signers := (if reportSignedBy entryDetail \<noteq> []
                                     then setAdd (reportSignedBy entryDetail) (signers st)
                                     else signers st)\<rparr>
           in (case map_of (hourData st) h of
                 None \<Rightarrow> st1
               | Some (c, es) \<Rightarrow>
                   st1\<lparr>hourData := AList.update h (c + 1, es @ [entryDetail]) (hourData st),
                        validEntries := validEntries st + 1\<rparr>)))"

record WorkflowState =
  availableModalities :: "string list"
  availableStatuses :: "string list"
  availableSigners :: "string list"
  hourlyData :: "HourlyData list"
  totalEntries :: nat

text \<open>
  \<open>processTimestamps\<close>. \<open>localeCompare\<close> is the collation of the host, a parameter
  here; \<open>timeFormat\<close> is the component's state of that name.
\<close>

definition toHourlyData ::
  "(string \<Rightarrow> string \<Rightarrow> int) \<Rightarrow> TimeFormat \<Rightarrow> nat \<times> nat \<times> EntryDetail list \<Rightarrow> HourlyData" where
  "toHourlyData localeCompare timeFormat kv =
     (case kv of (h, c, es) \<Rightarrow>
        (case formatHour h timeFormat of (hour24, h12) \<Rightarrow>
           \<lparr>hour = hour24, hour12 = h12, count = c,
            entries = sortBy (\<lambda>a b. localeCompare (timestamp a) (timestamp b)) es\<rparr>))"

definition processTimestamps ::
  "(string \<Rightarrow> string \<Rightarrow> int) \<Rightarrow> TimeFormat \<Rightarrow> row list \<Rightarrow> WorkflowState" where
  "processTimestamps localeCompare timeFormat rows =
     (let st = foldl (\<lambda>st row. processRow row st) initialState rows
      in \<lparr>availableModalities = sortBy defaultCompare (modalities st),
          availableStatuses = sortBy defaultCompare (statuses st),
          availableSigners = sortBy defaultCompare (signers st),
          hourlyData = map (toHourlyData localeCompare timeFormat)
                         (sortBy (\<lambda>a b. int (fst a) - int (fst b)) (hourData st)),
          totalEntries = validEntries st\<rparr>)"

section \<open>Filter Engine (workflow view)\<close>

text \<open>
  The filter state of the component. A range \<open>{start, end}\<close> is a record with the
  fields \<open>range_start\<close> and \<open>range_end\<close>.
\<close>

record Range =
  range_start :: string
  range_end :: string

record FilterCriteria =
  selectedModalities :: "string list"
  selectedStatuses :: "string list"
  selectedSigners :: "string list"
  dateRange :: Range
  timeRange :: Range

text \<open>\<open>const [n] = s.split(':').map(Number)\<close>.\<close>

definition firstNumber :: "string \<Rightarrow> nat option" where
  "firstNumber s = element (map jsNumber (splitOn CHR '':'' s)) 0"

text \<open>The callback of \<open>hourData.entries.filter\<close>.\<close>

definition entryMatches :: "FilterCriteria \<Rightarrow> EntryDetail \<Rightarrow> bool" where
  "entryMatches c entry =
     (let modalityMatch = (selectedModalities c = [] \<or> modality entry \<in> set (selectedModalities c));
          statusMatch = (selectedStatuses c = [] \<or> status entry \<in> set (selectedStatuses c));
          signerMatch = (selectedSigners c = [] \<or>
                         (reportSignedBy entry \<noteq> [] \<and> reportSignedBy entry \<in> set (selectedSigners c)));
          dateMatch = (range_start (dateRange c) = [] \<or> range_end (dateRange c) = [] \<or>
                       (strLe (range_start (dateRange c)) (date entry) \<and>
                        strLe (date entry) (range_end (dateRange c))))
      in modalityMatch \<and> statusMatch \<and> signerMatch \<and> dateMatch)"

definition filterBucket :: "FilterCriteria \<Rightarrow> HourlyData \<Rightarrow> HourlyData" where
  "filterBucket c hourData' =
     (let hourNum = firstNumber (hour hourData');
          startHour = firstNumber (range_start (timeRange c));
          endHour = firstNumber (range_end (timeRange c));
          timeRangeMatch = (nanLe startHour hourNum \<and> nanLe hourNum endHour)
      in if \<not> timeRangeMatch then hourData'\<lparr>count := 0, entries := []\<rparr>
         else (let filteredEntries = filter (entryMatches c) (entries hourData')
               in hourData'\<lparr>count := length filteredEntries, entries := filteredEntries\<rparr>))"

definition filteredData :: "FilterCriteria \<Rightarrow> HourlyData list \<Rightarrow> HourlyData list" where
  "filteredData c hourly = map (filterBucket c) hourly"

text \<open>The filter state after \<open>clearFilters\<close>, which is also the initial one.\<close>

definition clearFilters :: FilterCriteria where
  "clearFilters =
     \<lparr>selectedModalities = [], selectedStatuses = [], selectedSigners = [],
      dateRange = \<lparr>range_start = [], range_end = []\<rparr>,
      timeRange = \<lparr>range_start = ''00:00'', range_end = ''23:59''\<rparr>\<rparr>"

section \<open>Summary Report Builder\<close>

text \<open>
  \<open>xs.reduce(f)\<close> without an initial value starts from the first element and raises
  a \<open>TypeError\<close> on the empty array.
\<close>

datatype js_error = TypeError

definition reduce1 :: "('a \<Rightarrow> 'a \<Rightarrow> 'a) \<Rightarrow> 'a list \<Rightarrow> js_error + 'a" where
  "reduce1 f xs = (case xs of [] \<Rightarrow> Inl TypeError | x # r \<Rightarrow> Inr (foldl f x r))"

text \<open>\<open>(max, curr) => curr.count > max.count ? curr : max\<close>.\<close>

definition pickPeak :: "HourlyData \<Rightarrow> HourlyData \<Rightarrow> HourlyData" where
  "pickPeak mx cur = (if count cur > count mx then cur else mx)"

definition peakHour :: "HourlyData list \<Rightarrow> js_error + HourlyData" where
  "peakHour fd = reduce1 pickPeak fd"

definition hourLabel :: "TimeFormat \<Rightarrow> HourlyData \<Rightarrow> string" where
  "hourLabel timeFormat b = (case timeFormat of Format24 \<Rightarrow> hour b | Format12 \<Rightarrow> hour12 b)"

text \<open>
  The "Peak Hour" card. On the workflow page it is guarded by the length of
  \<open>filteredData\<close>; in the single-page application it is not, and is rendered only
  while \<open>hourlyData\<close> is not empty.
\<close>

definition peakHourCard :: "TimeFormat \<Rightarrow> HourlyData list \<Rightarrow> js_error + string" where
  "peakHourCard timeFormat fd =
     (if length fd > 0 then map_sum id (hourLabel timeFormat) (peakHour fd) else Inr ''N/A'')"

definition peakHourCard_App :: "TimeFormat \<Rightarrow> HourlyData list \<Rightarrow> js_error + string" where
  "peakHourCard_App timeFormat fd = map_sum id (hourLabel timeFormat) (peakHour fd)"

text \<open>
  The overview metrics of \<open>generateSummaryReport\<close>. The workflow page returns early
  (\<open>None\<close>) on an empty \<open>filteredData\<close>; the single-page application has no such
  test.
\<close>

record Overview =
  totalFilteredStudies :: nat
  activeHours :: nat
  peakHourLabel :: string
  peakHourStudies :: nat

definition overviewOf :: "TimeFormat \<Rightarrow> HourlyData list \<Rightarrow> js_error + Overview" where
  "overviewOf timeFormat fd =
     (case peakHour fd of
        Inl e \<Rightarrow> Inl e
      | Inr pk \<Rightarrow>
          Inr \<lparr>totalFilteredStudies = foldl (\<lambda>total cur. total + count cur) 0 fd,
               activeHours = length (filter (\<lambda>d. count d > 0) fd),
               peakHourLabel = hourLabel timeFormat pk,
               peakHourStudies = count pk\<rparr>)"

definition generateSummaryReport :: "TimeFormat \<Rightarrow> HourlyData list \<Rightarrow> (js_error + Overview) option" where
  "generateSummaryReport timeFormat fd =
     (if length fd = 0 then None else Some (overviewOf timeFormat fd))"

definition generateSummaryReport_App :: "TimeFormat \<Rightarrow> HourlyData list \<Rightarrow> js_error + Overview" where
  "generateSummaryReport_App timeFormat fd = overviewOf timeFormat fd"

section \<open>Productivity view\<close>

text \<open>\<open>extractTimeFromString\<close> of the productivity page returns the hour and the minute.\<close>

record HourMinute =
  hm_hour :: nat
  hm_minute :: nat

definition extractTimeFromString_sp :: "string \<Rightarrow> HourMinute option" where
  "extractTimeFromString_sp timeStr =
     (case timeMatch timeStr of
        None \<Rightarrow> None
      | Some (g1, g2, g3) \<Rightarrow>
          (let h = digitsValue g1;
               mi = digitsValue g2;
               p = (case g3 of None \<Rightarrow> [] | Some x \<Rightarrow> toUpperCase x)
           in Some \<lparr>hm_hour = adjustHour h p, hm_minute = mi\<rparr>))"

definition isTimeInRange :: "string \<Rightarrow> string \<Rightarrow> string \<Rightarrow> bool" where
  "isTimeInRange timeStr start end' =
     (case extractTimeFromString_sp timeStr of
        None \<Rightarrow> False
      | Some time \<Rightarrow>
          (let s = map jsNumber (splitOn CHR '':'' start);
               e = map jsNumber (splitOn CHR '':'' end');
               timeValue = Some (hm_hour time * 60 + hm_minute time);
               startValue = nanAdd (nanMul (element s 0) (Some 60)) (element s 1);
               endValue = nanAdd (nanMul (element e 0) (Some 60)) (element e 1)
           in nanLe startValue timeValue \<and> nanLe timeValue endValue))"

text \<open>
  \<open>parse\<close> and \<open>isValid\<close> come from the library date-fns. \<open>parse\<close> is a parameter
  of the model: from a string and a pattern it gives a date, which is invalid or
  holds a point in time, or it raises. Dates are compared by their points in time.
\<close>

datatype jsDate = InvalidDate | ValidDate int

type_synonym dateParser = "string \<Rightarrow> string \<Rightarrow> js_error + jsDate"

definition isValid :: "jsDate \<Rightarrow> bool" where
  "isValid d = (case d of InvalidDate \<Rightarrow> False | ValidDate t \<Rightarrow> True)"

definition dateBefore :: "jsDate \<Rightarrow> jsDate \<Rightarrow> bool" where
  "dateBefore a b =
     (case a of InvalidDate \<Rightarrow> False
      | ValidDate x \<Rightarrow> (case b of InvalidDate \<Rightarrow> False | ValidDate y \<Rightarrow> x < y))"

text \<open>
  The date stage of the callback of \<open>rows.filter\<close>: \<open>False\<close> where the callback
  returns \<open>false\<close> from it, \<open>True\<close> where it goes on to the next stage.
\<close>

definition dateFilter :: "dateParser \<Rightarrow> Range \<Rightarrow> string option \<Rightarrow> bool" where
  "dateFilter parse dr d =
     (case d of
        None \<Rightarrow> True
      | Some dt \<Rightarrow>
          if range_start dr \<noteq> [] \<and> range_end dr \<noteq> [] \<and> dt \<noteq> [] then
            (case parse (range_start dr) ''yyyy-MM-dd'' of
               Inl e \<Rightarrow> False
             | Inr startDate \<Rightarrow>
                 (case parse (range_end dr) ''yyyy-MM-dd'' of
                    Inl e \<Rightarrow> False
                  | Inr endDate \<Rightarrow>
                      (case parse dt ''MM/dd/yyyy'' of
                         Inl e \<Rightarrow> False
                       | Inr currentDate \<Rightarrow>
                           if isValid startDate \<and> isValid endDate \<and> isValid currentDate
                           then \<not> (dateBefore currentDate startDate \<or> dateBefore endDate currentDate)
                           else True)))
          else True)"

record StaffCriteria =
  sp_dateRange :: Range
  sp_timeRange :: Range
  sp_selectedModalities :: "string list"
  sp_selectedStatuses :: "string list"
  sp_selectedRadiologists :: "string list"

text \<open>
  The callback of \<open>rows.filter\<close>. \<open>isTimeInRange\<close> calls \<open>match\<close> on the field
  \<open>Time\<close>; on a row without that field this raises a \<open>TypeError\<close>, which leaves the
  callback and the filter.
\<close>

definition rowPasses :: "dateParser \<Rightarrow> StaffCriteria \<Rightarrow> row \<Rightarrow> js_error + bool" where
  "rowPasses parse c row =
     (if \<not> dateFilter parse (sp_dateRange c) (row ''Date'') then Inr False
      else (case row ''Time'' of
              None \<Rightarrow> Inl TypeError
            | Some time \<Rightarrow>
                if \<not> isTimeInRange time (range_start (sp_timeRange c)) (range_end (sp_timeRange c))
                then Inr False
                else if sp_selectedModalities c \<noteq> [] \<and>
                        orDefault (row ''Mod.'') ''N/A'' \<notin> set (sp_selectedModalities c)
                then Inr False
                else if sp_selectedStatuses c \<noteq> [] \<and>
                        orDefault (row ''Status'') ''N/A'' \<notin> set (sp_selectedStatuses c)
                then Inr False
                else if sp_selectedRadiologists c \<noteq> [] \<and>
                        orDefault (row ''Report Signed By'') ''Unassigned'' \<notin> set (sp_selectedRadiologists c)
                then Inr False
                else Inr True))"

fun filterRows :: "(row \<Rightarrow> js_error + bool) \<Rightarrow> row list \<Rightarrow> js_error + row list" where
  "filterRows p [] = Inr []"
| "filterRows p (r # rs) =
     (case p r of
        Inl e \<Rightarrow> Inl e
      | Inr keep \<Rightarrow>
          (case filterRows p rs of
             Inl e \<Rightarrow> Inl e
           | Inr rs' \<Rightarrow> Inr (if keep then r # rs' else rs')))"

section \<open>Staff/Modality Aggregator\<close>

text \<open>
  \<open>m.set(k, (m.get(k) || 0) + 1)\<close> on a \<open>Map\<close> from strings to counts, kept as the
  list of its pairs in insertion order.
\<close>

definition bumpCount :: "string \<Rightarrow> (string \<times> nat) list \<Rightarrow> (string \<times> nat) list" where
  "bumpCount k m = AList.update k ((case map_of m k of None \<Rightarrow> 0 | Some c \<Rightarrow> c) + 1) m"

definition modalityCountMap :: "row list \<Rightarrow> (string \<times> nat) list" where
  "modalityCountMap filteredRows =
     foldl (\<lambda>m row. bumpCount (orDefault (row ''Mod.'') ''N/A'') m) [] filteredRows"

text \<open>
  Numbers that need not be integers are real numbers here, and \<open>None\<close> is a result
  that is not finite: \<open>a / b\<close> is \<open>NaN\<close> or an infinity exactly when \<open>b\<close> is 0. The
  rounding of the floating-point operations is left out.
\<close>

definition jsDivide :: "nat \<Rightarrow> nat \<Rightarrow> real option" where
  "jsDivide a b = (if b = 0 then None else Some (real a / real b))"

text \<open>\<open>totalStudiesCount > 0 ? (count / totalStudiesCount) * 100 : 0\<close>.\<close>

definition percentageOf :: "nat \<Rightarrow> nat \<Rightarrow> real option" where
  "percentageOf cnt totalStudiesCount =
     (if totalStudiesCount > 0 then map_option (\<lambda>q. q * 100) (jsDivide cnt totalStudiesCount)
      else Some 0)"

record ModalityData =
  md_modality :: string
  md_count :: nat
  md_percentage :: "real option"

definition processedModalityData :: "row list \<Rightarrow> ModalityData list" where
  "processedModalityData filteredRows =
     (let totalStudiesCount = length filteredRows
      in sortBy (\<lambda>a b. int (md_count b) - int (md_count a))
           (map (\<lambda>(m, c). \<lparr>md_modality = m, md_count = c,
                             md_percentage = percentageOf c totalStudiesCount\<rparr>)
                (modalityCountMap filteredRows)))"

text \<open>
  The figures of the pie chart: \<open>aggregatedModalityCountMap\<close> is filled by the same
  statements as \<open>modalityCountMap\<close>, and aggregates with a count of 0 are left out
  before the sort.
\<close>

definition processedAggregatedModalityData :: "row list \<Rightarrow> ModalityData list" where
  "processedAggregatedModalityData filteredRows =
     (let totalStudiesCount = length filteredRows
      in sortBy (\<lambda>a b. int (md_count b) - int (md_count a))
           (filter (\<lambda>d. md_count d > 0)
              (map (\<lambda>(m, c). \<lparr>md_modality = m, md_count = c,
                                md_percentage = percentageOf c totalStudiesCount\<rparr>)
                   (modalityCountMap filteredRows))))"

text \<open>
  The part of \<open>processData\<close> behind the modality figures: the filter, then the
  aggregates of the rows that passed. An exception of the filter is caught by the
  \<open>try\<close> around the whole body, which reports an error and sets no figure.
\<close>

record ProductivityData =
  modalityData :: "ModalityData list"
  aggregatedModalityData :: "ModalityData list"
  totalStudies :: nat
  workingDays :: nat

definition processData :: "dateParser \<Rightarrow> StaffCriteria \<Rightarrow> row list \<Rightarrow> js_error + ProductivityData" where
  "processData parse c rows =
     (case filterRows (rowPasses parse c) rows of
        Inl e \<Rightarrow> Inl e
      | Inr filteredRows \<Rightarrow>
          Inr \<lparr>modalityData = processedModalityData filteredRows,
               aggregatedModalityData = processedAggregatedModalityData filteredRows,
               totalStudies = length filteredRows,
               workingDays = length (foldl (\<lambda>dates row. case row ''Date'' of
                                                            None \<Rightarrow> dates
                                                          | Some d \<Rightarrow> if d = [] then dates else setAdd d dates)
                                           [] filteredRows)\<rparr>)"

section \<open>The library call \<open>parse\<close> on the two patterns of the program\<close>

text \<open>
  For concrete inputs, a model of date-fns' \<open>parse\<close> on the patterns \<open>yyyy-MM-dd\<close>
  and \<open>MM/dd/yyyy\<close>: numeric fields of one to four digits for the year and of one
  or two digits for month and day, the separators as written, nothing but white
  space behind the last field, and a date of the calendar. On these patterns the call
  does not raise. The point in
  time of the date (midnight of that day) is held by the number
  \<open>10000 * year + 100 * month + day\<close>, which orders the days as time does.
\<close>

definition numericField :: "nat \<Rightarrow> string \<Rightarrow> nat option" where
  "numericField n s =
     (if s \<noteq> [] \<and> length s \<le> n \<and> list_all isDigit s then Some (digitsValue s) else None)"

definition lastNumericField :: "nat \<Rightarrow> string \<Rightarrow> nat option" where
  "lastNumericField n s =
     (if list_all isSpace (dropWhile isDigit s) then numericField n (takeWhile isDigit s) else None)"

definition daysInMonth :: "nat \<Rightarrow> nat \<Rightarrow> nat" where
  "daysInMonth y m =
     (if m = 2 then (if (y mod 4 = 0 \<and> y mod 100 \<noteq> 0) \<or> y mod 400 = 0 then 29 else 28)
      else if m = 4 \<or> m = 6 \<or> m = 9 \<or> m = 11 then 30 else 31)"

definition calendarDate :: "nat option \<Rightarrow> nat option \<Rightarrow> nat option \<Rightarrow> jsDate" where
  "calendarDate yo mo dv =
     (case yo of
        None \<Rightarrow> InvalidDate
      | Some y \<Rightarrow>
          (case mo of
             None \<Rightarrow> InvalidDate
           | Some m \<Rightarrow>
               (case dv of
                  None \<Rightarrow> InvalidDate
                | Some d \<Rightarrow>
                    if 0 < y \<and> 1 \<le> m \<and> m \<le> 12 \<and> 1 \<le> d \<and> d \<le> daysInMonth y m
                    then ValidDate (int (10000 * y + 100 * m + d))
                    else InvalidDate)))"

definition dateFnsParse :: dateParser where
  "dateFnsParse s fmt =
     (if fmt = ''yyyy-MM-dd'' then
        (case splitOn CHR ''-'' s of
           [y, m, d] \<Rightarrow> Inr (calendarDate (numericField 4 y) (numericField 2 m) (lastNumericField 2 d))
         | _ \<Rightarrow> Inr InvalidDate)
      else if fmt = ''MM/dd/yyyy'' then
        (case splitOn CHR ''/'' s of
           [m, d, y] \<Rightarrow> Inr (calendarDate (lastNumericField 4 y) (numericField 2 m) (numericField 2 d))
         | _ \<Rightarrow> Inr InvalidDate)
      else Inr InvalidDate)"

section \<open>Notions of the specification\<close>

text \<open>
  The time pattern, said without a matcher. \<open>timePatternAt u\<close>: the string \<open>u\<close> starts
  with one or two digits, a colon and two digits. \<open>containsTimePattern s\<close>: this
  happens somewhere in \<open>s\<close>. \<open>firstTimeMatch s h m post\<close>: the first place of \<open>s\<close> where
  it happens has the hour digits \<open>h\<close> and the minute digits \<open>m\<close>, and \<open>post\<close> is what
  follows them. \<open>markerFollows post mk\<close>: after white space, \<open>post\<close> goes on with two
  letters that are \<open>mk\<close> up to case.
\<close>

definition isHourDigits :: "string \<Rightarrow> bool" where
  "isHourDigits h = ((length h = 1 \<or> length h = 2) \<and> list_all isDigit h)"

definition isMinuteDigits :: "string \<Rightarrow> bool" where
  "isMinuteDigits m = (length m = 2 \<and> list_all isDigit m)"

definition timePatternAt :: "string \<Rightarrow> bool" where
  "timePatternAt u =
     (\<exists>h m post. u = h @ CHR '':'' # m @ post \<and> isHourDigits h \<and> isMinuteDigits m)"

definition containsTimePattern :: "string \<Rightarrow> bool" where
  "containsTimePattern s = (\<exists>pre u. s = pre @ u \<and> timePatternAt u)"

definition firstTimeMatch :: "string \<Rightarrow> string \<Rightarrow> string \<Rightarrow> string \<Rightarrow> bool" where
  "firstTimeMatch s h m post =
     (\<exists>pre. s = pre @ h @ CHR '':'' # m @ post \<and> isHourDigits h \<and> isMinuteDigits m \<and>
            (\<forall>i<length pre. \<not> timePatternAt (drop i s)))"

definition markerFollows :: "string \<Rightarrow> string \<Rightarrow> bool" where
  "markerFollows post mk =
     (\<exists>ws a b rest. post = ws @ a # b # rest \<and> list_all isSpace ws \<and> toUpperCase [a, b] = mk)"

text \<open>
  A row that the claims call rejected: its time field is absent, or is empty once
  trimmed, or holds no time pattern, or gives an hour above 23.
\<close>

definition timeRejected :: "row \<Rightarrow> bool" where
  "timeRejected row =
     (case row ''Time'' of
        None \<Rightarrow> True
      | Some t \<Rightarrow>
          trim t = [] \<or> \<not> containsTimePattern t \<or>
          (\<exists>ti. extractTimeFromString (trim t) = Some ti \<and> 23 < ti_hour ti))"

text \<open>
  The hour buckets of the data model: 24 slots, slot \<open>i\<close> with the two labels of hour
  \<open>i\<close> and with a count that is the number of its entries. \<open>recordsOf\<close> lists the
  records of a bucket list, each with the index of its bucket.
\<close>

definition wfBuckets :: "HourlyData list \<Rightarrow> bool" where
  "wfBuckets bs =
     (map hour bs = map (\<lambda>i. fst (formatHour i Format24)) [0..<24] \<and>
      map hour12 bs = map (\<lambda>i. snd (formatHour i Format24)) [0..<24] \<and>
      list_all (\<lambda>b. count b = length (entries b)) bs)"

definition recordsOf :: "HourlyData list \<Rightarrow> (nat \<times> EntryDetail) list" where
  "recordsOf bs = concat (map (\<lambda>(i, b). map (Pair i) (entries b)) (zip [0..<length bs] bs))"

text \<open>
  The predicates of the filter as the specification words them: a time range that is
  the full day when a bound of it is empty and that otherwise holds the hours of the
  buckets from the hour of its start to the hour of its end, a categorical dimension
  passed when its selection is empty or holds the value of the record, a date range
  passed when a bound is empty or the date lies between the bounds as a string.
\<close>

definition spec_hourInTimeRange :: "Range \<Rightarrow> nat \<Rightarrow> bool" where
  "spec_hourInTimeRange tr i =
     (range_start tr = [] \<or> range_end tr = [] \<or>
      (nanLe (firstNumber (range_start tr)) (Some i) \<and> nanLe (Some i) (firstNumber (range_end tr))))"

definition spec_categorical :: "string list \<Rightarrow> string \<Rightarrow> bool" where
  "spec_categorical selection v = (selection = [] \<or> v \<in> set selection)"

definition spec_dateInRange :: "Range \<Rightarrow> string \<Rightarrow> bool" where
  "spec_dateInRange dr d =
     (range_start dr = [] \<or> range_end dr = [] \<or> (strLe (range_start dr) d \<and> strLe d (range_end dr)))"

definition spec_recordPasses :: "FilterCriteria \<Rightarrow> nat \<times> EntryDetail \<Rightarrow> bool" where
  "spec_recordPasses c ie =
     (spec_hourInTimeRange (timeRange c) (fst ie) \<and>
      spec_categorical (selectedModalities c) (modality (snd ie)) \<and>
      spec_categorical (selectedStatuses c) (status (snd ie)) \<and>
      spec_categorical (selectedSigners c) (reportSignedBy (snd ie)) \<and>
      spec_dateInRange (dateRange c) (date (snd ie)))"

text \<open>
  What the filter keeps, said of a record and the index of its bucket: the test
  \<open>timeRangeMatch\<close> on the hour (an empty bound is read by \<open>Number\<close> as hour 0) and
  the callback \<open>entryMatches\<close> on the record.
\<close>

definition hourInTimeRange :: "Range \<Rightarrow> nat \<Rightarrow> bool" where
  "hourInTimeRange tr i =
     (nanLe (firstNumber (range_start tr)) (Some i) \<and> nanLe (Some i) (firstNumber (range_end tr)))"

definition recordPasses :: "FilterCriteria \<Rightarrow> nat \<times> EntryDetail \<Rightarrow> bool" where
  "recordPasses c ie = (hourInTimeRange (timeRange c) (fst ie) \<and> entryMatches c (snd ie))"

text \<open>
  The date stage of the productivity filter as the specification words it: the two
  bounds and the date of the record all read with the month/day/year pattern.
\<close>

definition spec_dateFilter :: "dateParser \<Rightarrow> Range \<Rightarrow> string option \<Rightarrow> bool" where
  "spec_dateFilter parse dr d =
     (case d of
        None \<Rightarrow> True
      | Some dt \<Rightarrow>
          if range_start dr \<noteq> [] \<and> range_end dr \<noteq> [] \<and> dt \<noteq> [] then
            (case parse (range_start dr) ''MM/dd/yyyy'' of
               Inl e \<Rightarrow> False
             | Inr startDate \<Rightarrow>
                 (case parse (range_end dr) ''MM/dd/yyyy'' of
                    Inl e \<Rightarrow> False
                  | Inr endDate \<Rightarrow>
                      (case parse dt ''MM/dd/yyyy'' of
                         Inl e \<Rightarrow> False
                       | Inr currentDate \<Rightarrow>
                           if isValid startDate \<and> isValid endDate \<and> isValid currentDate
                           then \<not> (dateBefore currentDate startDate \<or> dateBefore endDate currentDate)
                           else True)))
          else True)"

text \<open>
  What the loop of the aggregator keeps: the keys of \<open>hourData\<close> are the hours 0 to
  23 in order, \<open>validEntries\<close> is the sum of the counts, and every count is the
  number of entries beside it.
\<close>

definition ingestInv :: "IngestState \<Rightarrow> bool" where
  "ingestInv st =
     (map fst (hourData st) = [0..<24] \<and>
      validEntries st = sum_list (map (\<lambda>kv. fst (snd kv)) (hourData st)) \<and>
      list_all (\<lambda>kv. fst (snd kv) = length (snd (snd kv))) (hourData st))"

text \<open>Rows for the examples.\<close>

definition row_ct_0915 :: row where
  "row_ct_0915 = map_of [(''Date'', ''01/01/2024''), (''Time'', ''09:15 AM''), (''Mod.'', ''CT''),
                         (''Status'', ''Final''), (''Report Signed By'', ''Dr. A'')]"

definition row_mr_0945 :: row where
  "row_mr_0945 = map_of [(''Date'', ''01/01/2024''), (''Time'', ''09:45 AM''), (''Mod.'', ''MR''),
                         (''Status'', ''Prelim''), (''Report Signed By'', ''Dr. B'')]"

definition row_ct_1400 :: row where
  "row_ct_1400 = map_of [(''Date'', ''01/02/2024''), (''Time'', ''14:00''), (''Mod.'', ''CT''),
                         (''Status'', ''Final''), (''Report Signed By'', ''Dr. A'')]"

definition row_no_time :: row where
  "row_no_time = map_of [(''Date'', ''01/01/2024''), (''Mod.'', ''CT'')]"

definition row_bad_time :: row where
  "row_bad_time = map_of [(''Date'', ''01/01/2024''), (''Time'', ''soon''), (''Mod.'', ''CT'')]"

definition row_hour_25 :: row where
  "row_hour_25 = map_of [(''Date'', ''01/01/2024''), (''Time'', ''25:00''), (''Mod.'', ''CT'')]"

text \<open>Filter criteria for the examples.\<close>

definition criteria_ct_morning :: FilterCriteria where
  "criteria_ct_morning =
     \<lparr>selectedModalities = [''CT''], selectedStatuses = [], selectedSigners = [],
      dateRange = \<lparr>range_start = [], range_end = []\<rparr>,
      timeRange = \<lparr>range_start = ''08:00'', range_end = ''12:00''\<rparr>\<rparr>"

definition criteria_dr_a_morning :: FilterCriteria where
  "criteria_dr_a_morning =
     \<lparr>selectedModalities = [], selectedStatuses = [], selectedSigners = [''Dr. A''],
      dateRange = \<lparr>range_start = [], range_end = []\<rparr>,
      timeRange = \<lparr>range_start = ''08:00'', range_end = ''12:00''\<rparr>\<rparr>"

definition criteria_end_cleared :: FilterCriteria where
  "criteria_end_cleared =
     \<lparr>selectedModalities = [], selectedStatuses = [], selectedSigners = [],
      dateRange = \<lparr>range_start = [], range_end = []\<rparr>,
      timeRange = \<lparr>range_start = ''00:00'', range_end = []\<rparr>\<rparr>"

definition criteria_start_cleared :: FilterCriteria where
  "criteria_start_cleared =
     \<lparr>selectedModalities = [], selectedStatuses = [], selectedSigners = [],
      dateRange = \<lparr>range_start = [], range_end = []\<rparr>,
      timeRange = \<lparr>range_start = [], range_end = ''12:00''\<rparr>\<rparr>"

definition criteria_none_pass :: FilterCriteria where
  "criteria_none_pass =
     \<lparr>selectedModalities = [''US''], selectedStatuses = [], selectedSigners = [],
      dateRange = \<lparr>range_start = [], range_end = []\<rparr>,
      timeRange = \<lparr>range_start = ''00:00'', range_end = ''23:59''\<rparr>\<rparr>"

text \<open>
  Thirteen rows: five in hour 0, five in hour 1 and three in hour 2.
\<close>

definition row_at :: "string \<Rightarrow> row" where
  "row_at t = map_of [(''Time'', t)]"

definition rows_553 :: "row list" where
  "rows_553 = map row_at
     [''00:05'', ''00:10'', ''00:15'', ''00:20'', ''00:25'',
      ''01:05'', ''01:10'', ''01:15'', ''01:20'', ''01:25'',
      ''02:05'', ''02:10'', ''02:15'']"

text \<open>A date range and the filter state of the productivity page for the examples.\<close>

definition range_jan2_jan3 :: Range where
  "range_jan2_jan3 = \<lparr>range_start = ''2024-01-02'', range_end = ''2024-01-03''\<rparr>"

definition staff_all_day :: StaffCriteria where
  "staff_all_day =
     \<lparr>sp_dateRange = \<lparr>range_start = [], range_end = []\<rparr>,
      sp_timeRange = \<lparr>range_start = ''00:00'', range_end = ''23:59''\<rparr>,
      sp_selectedModalities = [], sp_selectedStatuses = [], sp_selectedRadiologists = []\<rparr>"

section \<open>The time parser meets its pattern\<close>

lemma colon_not_digit: "\<not> isDigit CHR '':''"
  by (simp add: isDigit_def)

lemma hourDigits_cases:
  "isHourDigits h \<longleftrightarrow> (\<exists>a. h = [a] \<and> isDigit a) \<or> (\<exists>a b. h = [a, b] \<and> isDigit a \<and> isDigit b)"
  by (cases h; cases "tl h"; cases "tl (tl h)") (auto simp: isHourDigits_def)

lemma minuteDigits_cases:
  "isMinuteDigits m \<longleftrightarrow> (\<exists>a b. m = [a, b] \<and> isDigit a \<and> isDigit b)"
  by (cases m; cases "tl m"; cases "tl (tl m)") (auto simp: isMinuteDigits_def)

lemma matchAt_complete:
  assumes "isHourDigits h" "isMinuteDigits m"
  shows "matchAt (h @ CHR '':'' # m @ post) = Some (h, m, marker post)"
  using assms colon_not_digit
  by (auto simp: hourDigits_cases minuteDigits_cases matchAt_def hourAlternatives_def colonMinutes_def)

lemma matchAt_sound:
  assumes "matchAt u = Some (h, m, g)"
  shows "\<exists>post. u = h @ CHR '':'' # m @ post \<and> isHourDigits h \<and> isMinuteDigits m \<and> g = marker post"
  using assms
  by (auto simp: hourDigits_cases minuteDigits_cases matchAt_def hourAlternatives_def colonMinutes_def
      split: list.splits if_splits option.splits)

lemma matchAt_None_iff: "matchAt u = None \<longleftrightarrow> \<not> timePatternAt u"
proof
  assume "matchAt u = None"
  then show "\<not> timePatternAt u"
    unfolding timePatternAt_def using matchAt_complete by fastforce
next
  assume n: "\<not> timePatternAt u"
  show "matchAt u = None"
  proof (cases "matchAt u")
    case None then show ?thesis .
  next
    case (Some g)
    obtain h m k where "g = (h, m, k)" by (cases g)
    with Some matchAt_sound[of u h m k] n show ?thesis
      unfolding timePatternAt_def by blast
  qed
qed

lemma timeMatch_here: "matchAt u = Some g \<Longrightarrow> timeMatch u = Some g"
  by (cases u) (auto simp: matchAt_def hourAlternatives_def)

lemma timeMatch_skip:
  "(\<forall>i<length pre. \<not> timePatternAt (drop i (pre @ u))) \<Longrightarrow> timeMatch (pre @ u) = timeMatch u"
proof (induction pre)
  case Nil
  then show ?case by simp
next
  case (Cons c pre)
  from Cons.prems have "\<not> timePatternAt (drop 0 ((c # pre) @ u))" by blast
  then have a: "matchAt (c # pre @ u) = None" by (simp add: matchAt_None_iff)
  have "\<forall>i<length pre. \<not> timePatternAt (drop i (pre @ u))"
  proof (intro allI impI)
    fix i assume "i < length pre"
    then have "Suc i < length (c # pre)" by simp
    with Cons.prems have "\<not> timePatternAt (drop (Suc i) ((c # pre) @ u))" by blast
    then show "\<not> timePatternAt (drop i (pre @ u))" by simp
  qed
  with Cons.IH a show ?case by simp
qed

lemma upperChar_A: "upperChar c = CHR ''A'' \<longleftrightarrow> c = CHR ''A'' \<or> c = CHR ''a''"
  by (auto simp: upperChar_def split: if_splits)

lemma upperChar_P: "upperChar c = CHR ''P'' \<longleftrightarrow> c = CHR ''P'' \<or> c = CHR ''p''"
  by (auto simp: upperChar_def split: if_splits)

lemma upperChar_M: "upperChar c = CHR ''M'' \<longleftrightarrow> c = CHR ''M'' \<or> c = CHR ''m''"
  by (auto simp: upperChar_def split: if_splits)

lemma isAP_not_space: "isAP a \<Longrightarrow> \<not> isSpace a"
  by (auto simp: isAP_def isSpace_def)

lemma dropWhile_all: "list_all P ws \<Longrightarrow> \<not> P a \<Longrightarrow> dropWhile P (ws @ a # r) = a # r"
  by (induction ws) auto

lemma marker_of_follows:
  assumes "markerFollows post mk" "mk = ''AM'' \<or> mk = ''PM''"
  shows "\<exists>g. marker post = Some g \<and> toUpperCase g = mk"
proof -
  from assms(1) obtain ws a b rest where
    p: "post = ws @ a # b # rest" and ws: "list_all isSpace ws" and u: "toUpperCase [a, b] = mk"
    unfolding markerFollows_def by blast
  from u assms(2) have ab: "isAP a" "isM b"
    by (auto simp: toUpperCase_def isAP_def isM_def upperChar_A upperChar_P upperChar_M)
  from ab(1) have "\<not> isSpace a" by (rule isAP_not_space)
  with ws have "dropWhile isSpace (ws @ a # b # rest) = a # b # rest"
    by (rule dropWhile_all)
  with ab have "marker post = Some [a, b]" unfolding p by (simp add: marker_def)
  with u show ?thesis by blast
qed

lemma marker_Some_shape:
  assumes "marker post = Some g"
  shows "\<exists>a b rest. dropWhile isSpace post = a # b # rest \<and> isAP a \<and> isM b \<and> g = [a, b]"
proof (cases "dropWhile isSpace post")
  case Nil
  with assms show ?thesis by (simp add: marker_def)
next
  case (Cons a r)
  note c1 = Cons
  show ?thesis
  proof (cases r)
    case Nil
    with c1 assms show ?thesis by (simp add: marker_def)
  next
    case (Cons b rest)
    with c1 assms show ?thesis by (simp add: marker_def split: if_splits)
  qed
qed

lemma upper_AP_M:
  assumes "isAP a" "isM b"
  shows "toUpperCase [a, b] = ''AM'' \<or> toUpperCase [a, b] = ''PM''"
proof -
  from assms(2) have "upperChar b = CHR ''M''" by (simp add: isM_def upperChar_M)
  moreover from assms(1) have "upperChar a = CHR ''A'' \<or> upperChar a = CHR ''P''"
    unfolding isAP_def upperChar_A upperChar_P by blast
  ultimately show ?thesis by (auto simp: toUpperCase_def)
qed

lemma marker_Some_follows:
  assumes "marker post = Some g"
  shows "markerFollows post (toUpperCase g) \<and> (toUpperCase g = ''AM'' \<or> toUpperCase g = ''PM'')"
proof -
  from marker_Some_shape[OF assms] obtain a b rest where
    d: "dropWhile isSpace post = a # b # rest" and ab: "isAP a" "isM b" and g: "g = [a, b]"
    by blast
  have "takeWhile isSpace post @ dropWhile isSpace post = post"
    by (rule takeWhile_dropWhile_id)
  then have "post = takeWhile isSpace post @ a # b # rest"
    unfolding d by (rule sym)
  moreover have "list_all isSpace (takeWhile isSpace post)"
    unfolding list_all_iff using set_takeWhileD by fast
  ultimately have "markerFollows post (toUpperCase [a, b])"
    unfolding markerFollows_def by blast
  with upper_AP_M[OF ab] show ?thesis unfolding g by blast
qed

lemma marker_None_iff:
  "marker post = None \<longleftrightarrow> \<not> markerFollows post ''AM'' \<and> \<not> markerFollows post ''PM''"
proof (cases "marker post")
  case None
  have "\<not> markerFollows post mk" if "mk = ''AM'' \<or> mk = ''PM''" for mk
  proof
    assume "markerFollows post mk"
    from marker_of_follows[OF this that] None show False by simp
  qed
  with None show ?thesis by blast
next
  case (Some g)
  from marker_Some_follows[OF Some] have "markerFollows post ''AM'' \<or> markerFollows post ''PM''"
    by metis
  with Some show ?thesis by simp
qed

lemma timeMatch_first:
  assumes "firstTimeMatch s h m post"
  shows "timeMatch s = Some (h, m, marker post)"
proof -
  from assms obtain pre where
    s: "s = pre @ h @ CHR '':'' # m @ post" and hm: "isHourDigits h" "isMinuteDigits m" and
    n: "\<forall>i<length pre. \<not> timePatternAt (drop i s)"
    unfolding firstTimeMatch_def by blast
  from n s have "timeMatch s = timeMatch (h @ CHR '':'' # m @ post)"
    using timeMatch_skip[of pre "h @ CHR '':'' # m @ post"] by simp
  also have "\<dots> = Some (h, m, marker post)"
    using hm by (simp add: matchAt_complete timeMatch_here)
  finally show ?thesis .
qed

lemma extract_first:
  assumes "firstTimeMatch s h m post"
  shows "extractTimeFromString s =
           Some \<lparr>ti_hour = adjustHour (digitsValue h)
                          (case marker post of None \<Rightarrow> [] | Some x \<Rightarrow> toUpperCase x),
                 ti_period = (case marker post of None \<Rightarrow> [] | Some x \<Rightarrow> toUpperCase x)\<rparr>"
  using timeMatch_first[OF assms] by (simp add: extractTimeFromString_def Let_def)

lemma hour_no_marker:
  assumes "firstTimeMatch s h m post" "marker post = None"
  shows "map_option ti_hour (extractTimeFromString s) = Some (digitsValue h)"
  unfolding extract_first[OF assms(1)] assms(2) by (simp add: adjustHour_def)

lemma hour_pm:
  assumes "firstTimeMatch s h m post" "marker post = Some g" "toUpperCase g = ''PM''"
    "digitsValue h \<noteq> 12"
  shows "map_option ti_hour (extractTimeFromString s) = Some (digitsValue h + 12)"
  unfolding extract_first[OF assms(1)] assms(2) using assms(3,4) by (simp add: adjustHour_def)

lemma hour_am:
  assumes "firstTimeMatch s h m post" "marker post = Some g" "toUpperCase g = ''AM''"
    "digitsValue h = 12"
  shows "map_option ti_hour (extractTimeFromString s) = Some 0"
  unfolding extract_first[OF assms(1)] assms(2) using assms(3,4) by (simp add: adjustHour_def)

lemma hour_examples:
  "map_option ti_hour (extractTimeFromString ''13:45'') = Some 13"
  "map_option ti_hour (extractTimeFromString ''12:00 AM'') = Some 0"
  "map_option ti_hour (extractTimeFromString ''12:00 PM'') = Some 12"
  "map_option ti_hour (extractTimeFromString ''1:00 PM'') = Some 13"
  "map_option ti_hour (extractTimeFromString ''11:59 PM'') = Some 23"
  by code_simp+

lemma firstTimeMatch_at_start:
  "isHourDigits h \<Longrightarrow> isMinuteDigits m \<Longrightarrow> firstTimeMatch (h @ CHR '':'' # m @ post) h m post"
  unfolding firstTimeMatch_def by (rule exI[of _ "[]"]) simp

text \<open>
  C1. Where the first time pattern of a string has the hour digits \<open>h\<close>, the parser
  returns the hour \<open>h\<close> as written when no marker follows, \<open>h + 12\<close> when PM follows
  and \<open>h\<close> is not 12, and 0 when AM follows and \<open>h\<close> is 12. "13:45" gives 13,
  "12:00 AM" gives 0, "12:00 PM" gives 12, "1:00 PM" gives 13 and "11:59 PM" gives 23.
\<close>

theorem time_parser_hour:
  "(firstTimeMatch s h m post \<longrightarrow>
      (\<not> markerFollows post ''AM'' \<and> \<not> markerFollows post ''PM'' \<longrightarrow>
         map_option ti_hour (extractTimeFromString s) = Some (digitsValue h)) \<and>
      (markerFollows post ''PM'' \<and> digitsValue h \<noteq> 12 \<longrightarrow>
         map_option ti_hour (extractTimeFromString s) = Some (digitsValue h + 12)) \<and>
      (markerFollows post ''AM'' \<and> digitsValue h = 12 \<longrightarrow>
         map_option ti_hour (extractTimeFromString s) = Some 0)) \<and>
   map_option ti_hour (extractTimeFromString ''13:45'') = Some 13 \<and>
   map_option ti_hour (extractTimeFromString ''12:00 AM'') = Some 0 \<and>
   map_option ti_hour (extractTimeFromString ''12:00 PM'') = Some 12 \<and>
   map_option ti_hour (extractTimeFromString ''1:00 PM'') = Some 13 \<and>
   map_option ti_hour (extractTimeFromString ''11:59 PM'') = Some 23"
proof (intro conjI impI)
  assume f: "firstTimeMatch s h m post"
    and n: "\<not> markerFollows post ''AM'' \<and> \<not> markerFollows post ''PM''"
  from n have "marker post = None" by (rule iffD2[OF marker_None_iff])
  with f show "map_option ti_hour (extractTimeFromString s) = Some (digitsValue h)"
    by (rule hour_no_marker)
next
  assume f: "firstTimeMatch s h m post"
    and a: "markerFollows post ''PM'' \<and> digitsValue h \<noteq> 12"
  from a have "markerFollows post ''PM''" and ne: "digitsValue h \<noteq> 12" by blast+
  then obtain g where "marker post = Some g" "toUpperCase g = ''PM''"
    using marker_of_follows[of post "''PM''"] by blast
  with f show "map_option ti_hour (extractTimeFromString s) = Some (digitsValue h + 12)"
    using ne by (rule hour_pm)
next
  assume f: "firstTimeMatch s h m post"
    and a: "markerFollows post ''AM'' \<and> digitsValue h = 12"
  from a have "markerFollows post ''AM''" and e: "digitsValue h = 12" by blast+
  then obtain g where "marker post = Some g" "toUpperCase g = ''AM''"
    using marker_of_follows[of post "''AM''"] by blast
  with f show "map_option ti_hour (extractTimeFromString s) = Some 0"
    using e by (rule hour_am)
qed (rule hour_examples)+

theorem time_parser_hour_witness:
  "firstTimeMatch ''x9:30'' ''9'' ''30'' [] \<and>
   \<not> markerFollows [] ''AM'' \<and> \<not> markerFollows [] ''PM'' \<and>
   map_option ti_hour (extractTimeFromString ''x9:30'') = Some 9 \<and>
   firstTimeMatch ''1:00 pm'' ''1'' ''00'' '' pm'' \<and>
   markerFollows '' pm'' ''PM'' \<and> digitsValue ''1'' \<noteq> 12 \<and>
   map_option ti_hour (extractTimeFromString ''1:00 pm'') = Some 13 \<and>
   firstTimeMatch ''12:05AM'' ''12'' ''05'' ''AM'' \<and>
   markerFollows ''AM'' ''AM'' \<and> digitsValue ''12'' = 12 \<and>
   map_option ti_hour (extractTimeFromString ''12:05AM'') = Some 0"
proof -
  have d: "isHourDigits ''9''" "isHourDigits ''1''" "isHourDigits ''12''"
    "isMinuteDigits ''30''" "isMinuteDigits ''00''" "isMinuteDigits ''05''"
    by (simp_all add: isHourDigits_def isMinuteDigits_def isDigit_def)
  have "\<not> timePatternAt ''x9:30''"
    by (rule iffD1[OF matchAt_None_iff]) code_simp
  then have f1: "firstTimeMatch ''x9:30'' ''9'' ''30'' []"
    unfolding firstTimeMatch_def using d by (intro exI[of _ "''x''"]) simp
  have f2: "firstTimeMatch ''1:00 pm'' ''1'' ''00'' '' pm''"
    using firstTimeMatch_at_start[OF d(2) d(5), of "'' pm''"] by simp
  have f3: "firstTimeMatch ''12:05AM'' ''12'' ''05'' ''AM''"
    using firstTimeMatch_at_start[OF d(3) d(6), of "''AM''"] by simp
  have n: "\<not> markerFollows [] ''AM'' \<and> \<not> markerFollows [] ''PM''"
    by (rule iffD1[OF marker_None_iff]) code_simp
  have m2: "markerFollows '' pm'' ''PM''"
    unfolding markerFollows_def
    by (intro exI[of _ "'' ''"] exI[of _ "CHR ''p''"] exI[of _ "CHR ''m''"] exI[of _ "[]"])
       (simp add: isSpace_def toUpperCase_def upperChar_def)
  have m3: "markerFollows ''AM'' ''AM''"
    unfolding markerFollows_def
    by (intro exI[of _ "[]"] exI[of _ "CHR ''A''"] exI[of _ "CHR ''M''"])
       (simp add: isSpace_def toUpperCase_def upperChar_def)
  have v2: "digitsValue ''1'' \<noteq> 12" by code_simp
  have v3: "digitsValue ''12'' = 12" by code_simp
  have v1: "digitsValue ''9'' = 9" by code_simp
  from time_parser_hour[of "''x9:30''" "''9''" "''30''" "[]"] f1 n v1
  have r1: "map_option ti_hour (extractTimeFromString ''x9:30'') = Some 9" by simp
  from time_parser_hour[of "''1:00 pm''" "''1''" "''00''" "'' pm''"] f2 m2 v2
  have r2: "map_option ti_hour (extractTimeFromString ''1:00 pm'') = Some (digitsValue ''1'' + 12)" by blast
  have r3: "map_option ti_hour (extractTimeFromString ''12:05AM'') = Some 0"
    using time_parser_hour[of "''12:05AM''" "''12''" "''05''" "''AM''"] f3 m3 v3 by blast
  have v2': "digitsValue ''1'' + 12 = 13" by code_simp
  from f1 n r1 f2 m2 v2 r2 f3 m3 v3 r3 v2' show ?thesis by simp
qed

section \<open>Sorting\<close>

lemma length_insertBy: "length (insertBy cmp x ys) = Suc (length ys)"
  by (induction ys) auto

lemma length_sortBy: "length (sortBy cmp xs) = length xs"
  unfolding sortBy_def by (induction xs) (auto simp: length_insertBy)

lemma set_insertBy: "set (insertBy cmp x ys) = insert x (set ys)"
  by (induction ys) auto

lemma set_sortBy: "set (sortBy cmp xs) = set xs"
  unfolding sortBy_def by (induction xs) (auto simp: set_insertBy)

lemma sortBy_keys_sorted:
  "sorted (map fst xs) \<Longrightarrow> sortBy (\<lambda>a b. int (fst a) - int (fst b)) xs = xs"
proof (induction xs)
  case Nil
  then show ?case by (simp add: sortBy_def)
next
  case (Cons x xs)
  then have ih: "sortBy (\<lambda>a b. int (fst a) - int (fst b)) xs = xs" by simp
  have "sortBy (\<lambda>a b. int (fst a) - int (fst b)) (x # xs)
          = insertBy (\<lambda>a b. int (fst a) - int (fst b)) x xs"
    using ih by (simp add: sortBy_def)
  also have "\<dots> = x # xs"
    using Cons.prems by (cases xs) auto
  finally show ?case .
qed

section \<open>The loop of the aggregator\<close>

lemma studyRecordOf_hour: "studyRecordOf row = Some (h, e) \<Longrightarrow> h \<le> 23"
  by (auto simp: studyRecordOf_def split: option.splits if_splits)

lemma sum_update_bucket:
  "map_of al k = Some (c, es) \<Longrightarrow>
   sum_list (map (\<lambda>kv. fst (snd kv)) (AList.update k (c + 1, es') al))
     = Suc (sum_list (map (\<lambda>kv. fst (snd kv)) al))"
  by (induction al) (auto split: if_splits)

lemma all_update_bucket:
  "map_of al k = Some (c, es) \<Longrightarrow>
   list_all (\<lambda>kv. fst (snd kv) = length (snd (snd kv))) al \<Longrightarrow>
   list_all (\<lambda>kv. fst (snd kv) = length (snd (snd kv))) (AList.update k (c + 1, es @ [e]) al)"
  by (induction al) (auto split: if_splits)

lemma keys_lookup:
  assumes "map fst al = [0..<24]" "h \<le> 23"
  shows "\<exists>v. map_of al h = Some v"
proof -
  have "h \<in> set (map fst al)" using assms by simp
  then show ?thesis by (metis map_of_eq_None_iff not_Some_eq set_map)
qed

lemma processRow_None: "studyRecordOf row = None \<Longrightarrow> processRow row st = st"
  by (simp add: processRow_def)

lemma processRow_Some:
  assumes "studyRecordOf row = Some (h, e)" "ingestInv st"
  shows "ingestInv (processRow row st) \<and> validEntries (processRow row st) = Suc (validEntries st)"
proof -
  from assms have k: "map fst (hourData st) = [0..<24]" by (simp add: ingestInv_def)
  from studyRecordOf_hour[OF assms(1)] keys_lookup[OF k]
  obtain c es where l: "map_of (hourData st) h = Some (c, es)" by fastforce
  have hk: "h \<in> set (map fst (hourData st))"
    using studyRecordOf_hour[OF assms(1)] k by simp
  have keys: "map fst (AList.update h (c + 1, es @ [e]) (hourData st)) = [0..<24]"
    using hk k by (simp only: update_keys if_True)
  show ?thesis
    using assms(2) l keys sum_update_bucket[OF l] all_update_bucket[OF l]
    by (simp add: processRow_def assms(1) ingestInv_def Let_def)
qed

lemma ingestInv_initial: "ingestInv initialState"
  by (simp add: ingestInv_def initialState_def comp_def list_all_iff)

lemma ingest_loop:
  "ingestInv st \<Longrightarrow>
   ingestInv (foldl (\<lambda>st row. processRow row st) st rows) \<and>
   validEntries (foldl (\<lambda>st row. processRow row st) st rows)
     = validEntries st + length (filter (\<lambda>r. studyRecordOf r \<noteq> None) rows)"
proof (induction rows arbitrary: st)
  case Nil
  then show ?case by simp
next
  case (Cons r rows)
  show ?case
  proof (cases "studyRecordOf r")
    case None
    with Cons show ?thesis by (simp add: processRow_None)
  next
    case (Some he)
    obtain h e where "he = (h, e)" by (cases he)
    with Some processRow_Some[of r h e st] Cons.prems
    have "ingestInv (processRow r st)" "validEntries (processRow r st) = Suc (validEntries st)"
      by simp_all
    with Cons.IH[of "processRow r st"] Some show ?thesis by simp
  qed
qed

section \<open>The buckets of the aggregator\<close>

lemma count_toHourlyData: "count (toHourlyData cmp tf (h, c, es)) = c"
  by (simp add: toHourlyData_def split: prod.splits)

lemma entries_toHourlyData:
  "entries (toHourlyData cmp tf (h, c, es)) = sortBy (\<lambda>a b. cmp (timestamp a) (timestamp b)) es"
  by (simp add: toHourlyData_def split: prod.splits)

lemma hour_toHourlyData: "hour (toHourlyData cmp tf (h, c, es)) = fst (formatHour h Format24)"
  by (simp add: toHourlyData_def formatHour_def Let_def split: prod.splits)

lemma hour12_toHourlyData: "hour12 (toHourlyData cmp tf (h, c, es)) = snd (formatHour h Format24)"
  by (simp add: toHourlyData_def formatHour_def Let_def split: prod.splits)

lemma hourlyData_processTimestamps:
  "hourlyData (processTimestamps cmp tf rows)
     = map (toHourlyData cmp tf) (hourData (foldl (\<lambda>st row. processRow row st) initialState rows))"
proof -
  let ?st = "foldl (\<lambda>st row. processRow row st) initialState rows"
  have "ingestInv ?st" using ingest_loop[OF ingestInv_initial] by blast
  then have "map fst (hourData ?st) = [0..<24]" by (simp add: ingestInv_def)
  then have "sorted (map fst (hourData ?st))" by simp
  then show ?thesis
    by (simp add: processTimestamps_def Let_def sortBy_keys_sorted)
qed

lemma totalEntries_processTimestamps:
  "totalEntries (processTimestamps cmp tf rows)
     = validEntries (foldl (\<lambda>st row. processRow row st) initialState rows)"
  by (simp add: processTimestamps_def Let_def)

lemma counts_of_buckets:
  "map count (map (toHourlyData cmp tf) al) = map (\<lambda>kv. fst (snd kv)) al"
  by (induction al) (auto simp: count_toHourlyData)

lemma lengths_of_buckets:
  "map (\<lambda>b. length (entries b)) (map (toHourlyData cmp tf) al) = map (\<lambda>kv. length (snd (snd kv))) al"
  by (induction al) (auto simp: entries_toHourlyData length_sortBy)

lemma wf_entries_map:
  "list_all (\<lambda>kv. fst (snd kv) = length (snd (snd kv))) al \<Longrightarrow>
   map (\<lambda>kv. length (snd (snd kv))) al = map (\<lambda>kv. fst (snd kv)) al"
  by (induction al) auto

text \<open>
  C3. After the aggregation the counts of the 24 buckets add up to the valid-entry
  scalar, which is the number of rows that gave a study record, and to the number of
  entries stored in the buckets.
\<close>

theorem bucket_counts_sum:
  "sum_list (map count (hourlyData (processTimestamps cmp tf rows)))
     = totalEntries (processTimestamps cmp tf rows) \<and>
   totalEntries (processTimestamps cmp tf rows)
     = length (filter (\<lambda>r. studyRecordOf r \<noteq> None) rows) \<and>
   sum_list (map (\<lambda>b. length (entries b)) (hourlyData (processTimestamps cmp tf rows)))
     = totalEntries (processTimestamps cmp tf rows)"
proof -
  let ?st = "foldl (\<lambda>st row. processRow row st) initialState rows"
  from ingest_loop[OF ingestInv_initial, of rows]
  have inv: "ingestInv ?st"
    and v: "validEntries ?st = length (filter (\<lambda>r. studyRecordOf r \<noteq> None) rows)"
    by (simp_all add: initialState_def)
  from inv have s: "validEntries ?st = sum_list (map (\<lambda>kv. fst (snd kv)) (hourData ?st))"
    and a: "list_all (\<lambda>kv. fst (snd kv) = length (snd (snd kv))) (hourData ?st)"
    by (simp_all add: ingestInv_def)
  show ?thesis
    unfolding hourlyData_processTimestamps totalEntries_processTimestamps
      counts_of_buckets lengths_of_buckets wf_entries_map[OF a]
    using s v by simp
qed

lemma wf_processTimestamps: "wfBuckets (hourlyData (processTimestamps cmp tf rows))"
proof -
  let ?st = "foldl (\<lambda>st row. processRow row st) initialState rows"
  from ingest_loop[OF ingestInv_initial, of rows] have inv: "ingestInv ?st" by blast
  then have k: "map fst (hourData ?st) = [0..<24]"
    and a: "list_all (\<lambda>kv. fst (snd kv) = length (snd (snd kv))) (hourData ?st)"
    by (simp_all add: ingestInv_def)
  have h: "map hour (map (toHourlyData cmp tf) al) = map (\<lambda>i. fst (formatHour i Format24)) (map fst al)" for al
    by (induction al) (auto simp: hour_toHourlyData)
  have h12: "map hour12 (map (toHourlyData cmp tf) al) = map (\<lambda>i. snd (formatHour i Format24)) (map fst al)" for al
    by (induction al) (auto simp: hour12_toHourlyData)
  have c: "list_all (\<lambda>kv. fst (snd kv) = length (snd (snd kv))) al \<Longrightarrow>
           list_all (\<lambda>b. count b = length (entries b)) (map (toHourlyData cmp tf) al)" for al
    by (induction al) (auto simp: count_toHourlyData entries_toHourlyData length_sortBy)
  show ?thesis
    unfolding wfBuckets_def hourlyData_processTimestamps h h12 k
    using c[OF a] by simp
qed

theorem bucket_counts_sum_witness:
  "sum_list (map count (hourlyData (processTimestamps defaultCompare Format24
      [row_ct_0915, row_no_time, row_mr_0945, row_bad_time, row_ct_1400]))) = 3 \<and>
   totalEntries (processTimestamps defaultCompare Format24
      [row_ct_0915, row_no_time, row_mr_0945, row_bad_time, row_ct_1400]) = 3"
proof -
  have "length (filter (\<lambda>r. studyRecordOf r \<noteq> None)
          [row_ct_0915, row_no_time, row_mr_0945, row_bad_time, row_ct_1400]) = 3"
    by code_simp
  with bucket_counts_sum[of defaultCompare Format24
      "[row_ct_0915, row_no_time, row_mr_0945, row_bad_time, row_ct_1400]"]
  show ?thesis by simp
qed

section \<open>Rejected rows\<close>

lemma digit_not_space: "isDigit c \<Longrightarrow> \<not> isSpace c"
  by (auto simp: isDigit_def isSpace_def)

lemma timePatternAt_Nil: "\<not> timePatternAt []"
  by (simp add: timePatternAt_def)

lemma timePatternAt_head: "timePatternAt (c # cs) \<Longrightarrow> isDigit c"
  by (auto simp: timePatternAt_def hourDigits_cases)

lemma contains_Nil: "\<not> containsTimePattern []"
  by (simp add: containsTimePattern_def timePatternAt_Nil)

lemma contains_Cons:
  "containsTimePattern (c # cs) \<longleftrightarrow> timePatternAt (c # cs) \<or> containsTimePattern cs"
proof
  assume "containsTimePattern (c # cs)"
  then obtain pre u where p: "c # cs = pre @ u" "timePatternAt u"
    unfolding containsTimePattern_def by blast
  show "timePatternAt (c # cs) \<or> containsTimePattern cs"
  proof (cases pre)
    case Nil
    with p show ?thesis by simp
  next
    case (Cons a pre')
    with p have "cs = pre' @ u" by simp
    with p(2) show ?thesis unfolding containsTimePattern_def by blast
  qed
next
  assume "timePatternAt (c # cs) \<or> containsTimePattern cs"
  then show "containsTimePattern (c # cs)"
  proof
    assume "timePatternAt (c # cs)"
    then show ?thesis unfolding containsTimePattern_def by (intro exI[of _ "[]"] exI[of _ "c # cs"]) simp
  next
    assume "containsTimePattern cs"
    then obtain pre u where "cs = pre @ u" "timePatternAt u"
      unfolding containsTimePattern_def by blast
    then show ?thesis unfolding containsTimePattern_def
      by (intro exI[of _ "c # pre"] exI[of _ u]) simp
  qed
qed

lemma timeMatch_None_iff: "timeMatch s = None \<longleftrightarrow> \<not> containsTimePattern s"
proof (induction s)
  case Nil
  have "matchAt [] = None" by (simp add: matchAt_def hourAlternatives_def)
  then show ?case by (simp add: contains_Nil)
next
  case (Cons c cs)
  show ?case
  proof (cases "matchAt (c # cs)")
    case None
    then have "\<not> timePatternAt (c # cs)" by (simp add: matchAt_None_iff)
    with None Cons show ?thesis by (simp add: contains_Cons)
  next
    case (Some g)
    then have "timePatternAt (c # cs)" using matchAt_None_iff[of "c # cs"] by simp
    with Some show ?thesis by (simp add: contains_Cons)
  qed
qed

lemma extract_None_iff: "extractTimeFromString s = None \<longleftrightarrow> \<not> containsTimePattern s"
  unfolding timeMatch_None_iff[symmetric]
  by (auto simp: extractTimeFromString_def Let_def split: option.splits)

lemma contains_dropWhile_space:
  "containsTimePattern (dropWhile isSpace s) \<longleftrightarrow> containsTimePattern s"
proof (induction s)
  case Nil
  then show ?case by simp
next
  case (Cons c cs)
  show ?case
  proof (cases "isSpace c")
    case True
    then have "\<not> timePatternAt (c # cs)" using timePatternAt_head digit_not_space by blast
    with True Cons show ?thesis by (simp add: contains_Cons)
  next
    case False
    then show ?thesis by simp
  qed
qed

lemma contains_snoc_space:
  assumes "isSpace c"
  shows "containsTimePattern (u @ [c]) \<longleftrightarrow> containsTimePattern u"
proof
  assume "containsTimePattern (u @ [c])"
  then obtain pre h m post where
    e: "u @ [c] = pre @ h @ CHR '':'' # m @ post" and hm: "isHourDigits h" "isMinuteDigits m"
    unfolding containsTimePattern_def timePatternAt_def by blast
  show "containsTimePattern u"
  proof (cases post rule: rev_cases)
    case Nil
    from hm(2) obtain a b where m: "m = [a, b]" "isDigit b" unfolding minuteDigits_cases by blast
    with e Nil have "u @ [c] = (pre @ h @ [CHR '':'', a]) @ [b]" by simp
    then have "c = b" by (simp only: append1_eq_conv)
    with m assms digit_not_space show ?thesis by blast
  next
    case (snoc post' c')
    with e have "u @ [c] = (pre @ h @ CHR '':'' # m @ post') @ [c']" by simp
    then have "u = pre @ h @ CHR '':'' # m @ post'" by (simp only: append1_eq_conv)
    with hm show ?thesis unfolding containsTimePattern_def timePatternAt_def by blast
  qed
next
  assume "containsTimePattern u"
  then obtain pre h m post where
    e: "u = pre @ h @ CHR '':'' # m @ post" and hm: "isHourDigits h" "isMinuteDigits m"
    unfolding containsTimePattern_def timePatternAt_def by blast
  then have "u @ [c] = pre @ h @ CHR '':'' # m @ (post @ [c])" by simp
  with hm show "containsTimePattern (u @ [c])"
    unfolding containsTimePattern_def timePatternAt_def by blast
qed

lemma contains_append_spaces:
  "list_all isSpace ws \<Longrightarrow> containsTimePattern (u @ ws) \<longleftrightarrow> containsTimePattern u"
proof (induction ws rule: rev_induct)
  case Nil
  then show ?case by simp
next
  case (snoc c ws)
  then have "isSpace c" "list_all isSpace ws" by simp_all
  with snoc.IH contains_snoc_space[of c "u @ ws"] show ?case by simp
qed

lemma contains_trim: "containsTimePattern (trim s) \<longleftrightarrow> containsTimePattern s"
proof -
  let ?t = "dropWhile isSpace s"
  let ?ws = "rev (takeWhile isSpace (rev ?t))"
  have "rev ?t = takeWhile isSpace (rev ?t) @ dropWhile isSpace (rev ?t)"
    by (rule takeWhile_dropWhile_id[symmetric])
  then have "rev (rev ?t) = rev (takeWhile isSpace (rev ?t) @ dropWhile isSpace (rev ?t))"
    by (rule arg_cong)
  then have t: "?t = trim s @ ?ws"
    unfolding trim_def by (simp only: rev_rev_ident rev_append)
  have "list_all isSpace ?ws"
    unfolding list_all_iff using set_takeWhileD by fastforce
  then have "containsTimePattern (trim s @ ?ws) \<longleftrightarrow> containsTimePattern (trim s)"
    by (rule contains_append_spaces)
  with t contains_dropWhile_space[of s] show ?thesis by simp
qed

lemma rejected_iff_no_record: "timeRejected row \<longleftrightarrow> studyRecordOf row = None"
proof (cases "row ''Time''")
  case None
  then show ?thesis by (simp add: timeRejected_def studyRecordOf_def)
next
  case (Some t)
  show ?thesis
  proof (cases "extractTimeFromString (trim t)")
    case None
    then have "\<not> containsTimePattern t" by (simp add: extract_None_iff contains_trim)
    with None Some show ?thesis by (simp add: timeRejected_def studyRecordOf_def)
  next
    case (Some ti)
    then have "containsTimePattern t"
      using extract_None_iff[of "trim t"] by (simp add: contains_trim)
    with Some \<open>row ''Time'' = Some t\<close> show ?thesis
      by (simp add: timeRejected_def studyRecordOf_def)
  qed
qed

text \<open>
  C2. A row whose time field is absent or empty, or holds no time pattern, or gives
  an hour outside 0..23, yields no study record: the state of the aggregator is the
  same after the row as before it, and the aggregation of a row sequence with such a
  row is that of the sequence without it, the rows behind it being processed as ever.
\<close>

theorem rejected_row_dropped:
  "timeRejected row \<Longrightarrow>
     studyRecordOf row = None \<and>
     processRow row st = st \<and>
     processTimestamps cmp tf (xs @ row # ys) = processTimestamps cmp tf (xs @ ys)"
proof -
  assume "timeRejected row"
  then have n: "studyRecordOf row = None" by (simp only: rejected_iff_no_record)
  then have p: "processRow row st' = st'" for st' by (rule processRow_None)
  have "foldl (\<lambda>st row. processRow row st) initialState (xs @ row # ys)
          = foldl (\<lambda>st row. processRow row st) initialState (xs @ ys)"
    by (simp add: p)
  then have "processTimestamps cmp tf (xs @ row # ys) = processTimestamps cmp tf (xs @ ys)"
    by (simp add: processTimestamps_def)
  with n p show ?thesis by blast
qed


theorem rejected_row_dropped_witness:
  "timeRejected row_no_time \<and> timeRejected row_bad_time \<and> timeRejected row_hour_25 \<and>
   studyRecordOf row_bad_time = None \<and>
   processTimestamps defaultCompare Format24 [row_ct_0915, row_no_time, row_ct_1400]
     = processTimestamps defaultCompare Format24 [row_ct_0915, row_ct_1400] \<and>
   processTimestamps defaultCompare Format24 [row_ct_0915, row_bad_time, row_ct_1400]
     = processTimestamps defaultCompare Format24 [row_ct_0915, row_ct_1400] \<and>
   processTimestamps defaultCompare Format24 [row_ct_0915, row_hour_25, row_ct_1400]
     = processTimestamps defaultCompare Format24 [row_ct_0915, row_ct_1400]"
proof -
  have r1: "timeRejected row_no_time"
    by (rule iffD2[OF rejected_iff_no_record]) code_simp
  have r2: "timeRejected row_bad_time"
    by (rule iffD2[OF rejected_iff_no_record]) code_simp
  have r3: "timeRejected row_hour_25"
    by (rule iffD2[OF rejected_iff_no_record]) code_simp
  from rejected_row_dropped[OF r1, of _ defaultCompare Format24 "[row_ct_0915]" "[row_ct_1400]"]
  have p1: "processTimestamps defaultCompare Format24 [row_ct_0915, row_no_time, row_ct_1400]
     = processTimestamps defaultCompare Format24 [row_ct_0915, row_ct_1400]" by simp
  from rejected_row_dropped[OF r2, of _ defaultCompare Format24 "[row_ct_0915]" "[row_ct_1400]"]
  have p2: "studyRecordOf row_bad_time = None"
    "processTimestamps defaultCompare Format24 [row_ct_0915, row_bad_time, row_ct_1400]
     = processTimestamps defaultCompare Format24 [row_ct_0915, row_ct_1400]" by simp_all
  from rejected_row_dropped[OF r3, of _ defaultCompare Format24 "[row_ct_0915]" "[row_ct_1400]"]
  have p3: "processTimestamps defaultCompare Format24 [row_ct_0915, row_hour_25, row_ct_1400]
     = processTimestamps defaultCompare Format24 [row_ct_0915, row_ct_1400]" by simp
  from r1 r2 r3 p1 p2 p3 show ?thesis by blast
qed

section \<open>The filter engine on the buckets of the data model\<close>

lemma formatHour_format: "formatHour h f = formatHour h Format24"
  by (simp add: formatHour_def)

lemma label_roundtrip_all:
  "list_all (\<lambda>i. firstNumber (fst (formatHour i Format24)) = Some i) [0..<24]"
  by code_simp

lemma label_roundtrip: "i < 24 \<Longrightarrow> firstNumber (fst (formatHour i Format24)) = Some i"
  using label_roundtrip_all unfolding list_all_iff by simp

lemma full_day_bounds: "firstNumber ''00:00'' = Some 0" "firstNumber ''23:59'' = Some 23"
  by code_simp+

lemma wfBuckets_length: "wfBuckets bs \<Longrightarrow> length bs = 24"
proof -
  assume "wfBuckets bs"
  then have "map hour bs = map (\<lambda>i. fst (formatHour i Format24)) [0..<24]"
    by (simp add: wfBuckets_def)
  then have "length (map hour bs) = length (map (\<lambda>i. fst (formatHour i Format24)) [0..<24])"
    by (rule arg_cong)
  then show ?thesis by simp
qed

lemma wfBuckets_nth:
  assumes "wfBuckets bs" "i < 24"
  shows "firstNumber (hour (bs ! i)) = Some i" "count (bs ! i) = length (entries (bs ! i))"
proof -
  from assms have l: "i < length bs" by (simp add: wfBuckets_length)
  from assms(1) have "map hour bs = map (\<lambda>i. fst (formatHour i Format24)) [0..<24]"
    by (simp add: wfBuckets_def)
  then have "map hour bs ! i = map (\<lambda>i. fst (formatHour i Format24)) [0..<24] ! i"
    by (rule arg_cong)
  with l assms(2) have "hour (bs ! i) = fst (formatHour i Format24)" by simp
  with assms(2) show "firstNumber (hour (bs ! i)) = Some i" by (simp add: label_roundtrip)
  from assms(1) l show "count (bs ! i) = length (entries (bs ! i))"
    by (simp add: wfBuckets_def list_all_length)
qed

lemma entryMatches_clear: "entryMatches clearFilters e"
  by (simp add: entryMatches_def clearFilters_def)

lemma filterBucket_clear:
  assumes "firstNumber (hour b) = Some i" "i < 24" "count b = length (entries b)"
  shows "filterBucket clearFilters b = b"
proof -
  have t: "timeRange clearFilters = \<lparr>range_start = ''00:00'', range_end = ''23:59''\<rparr>"
    by (simp add: clearFilters_def)
  have f: "filter (entryMatches clearFilters) (entries b) = entries b"
    by (simp add: entryMatches_clear)
  from assms show ?thesis
    by (simp add: filterBucket_def Let_def t full_day_bounds nanLe_def f)
qed

text \<open>
  C4. On the hour buckets of the data model, the filter with the three selections
  empty, both bounds of the date range empty and the time range 00:00 to 23:59 gives
  back its input: every bucket with the same count and the same entries in the same
  order. The buckets that \<open>processTimestamps\<close> builds are such buckets
  (\<open>wf_processTimestamps\<close>).
\<close>

theorem filter_identity: "wfBuckets bs \<Longrightarrow> filteredData clearFilters bs = bs"
proof -
  assume wf: "wfBuckets bs"
  show ?thesis
  proof (rule nth_equalityI)
    show "length (filteredData clearFilters bs) = length bs" by (simp add: filteredData_def)
  next
    fix i assume "i < length (filteredData clearFilters bs)"
    then have i: "i < length bs" by (simp add: filteredData_def)
    with wf have i24: "i < 24" by (simp add: wfBuckets_length)
    note w = wfBuckets_nth[OF wf i24]
    have "filterBucket clearFilters (bs ! i) = bs ! i"
      by (rule filterBucket_clear[OF w(1) i24 w(2)])
    with i show "filteredData clearFilters bs ! i = bs ! i" by (simp add: filteredData_def)
  qed
qed

theorem filter_identity_witness:
  "wfBuckets (hourlyData (processTimestamps defaultCompare Format24 [row_ct_0915, row_mr_0945, row_ct_1400])) \<and>
   filteredData clearFilters
      (hourlyData (processTimestamps defaultCompare Format24 [row_ct_0915, row_mr_0945, row_ct_1400]))
     = hourlyData (processTimestamps defaultCompare Format24 [row_ct_0915, row_mr_0945, row_ct_1400])"
  using filter_identity[OF wf_processTimestamps] wf_processTimestamps by blast

section \<open>What the filter leaves alone\<close>

lemma filterBucket_frame:
  "filterBucket c b = b\<lparr>count := count (filterBucket c b), entries := entries (filterBucket c b)\<rparr>"
  by (simp add: filterBucket_def Let_def)

lemma filterBucket_labels:
  "hour (filterBucket c b) = hour b" "hour12 (filterBucket c b) = hour12 b"
  by (simp_all add: filterBucket_def Let_def)

text \<open>
  C10. On 24 buckets the filter gives 24 buckets in the same order, and each of them
  is the bucket of the input with nothing but \<open>count\<close> and \<open>entries\<close> replaced:
  the labels \<open>hour\<close> and \<open>hour12\<close> are those of the input.
\<close>

theorem filter_frame:
  "length bs = 24 \<Longrightarrow>
     length (filteredData c bs) = 24 \<and>
     map hour (filteredData c bs) = map hour bs \<and>
     map hour12 (filteredData c bs) = map hour12 bs \<and>
     (\<forall>i<24. filteredData c bs ! i
               = (bs ! i)\<lparr>count := count (filteredData c bs ! i),
                           entries := entries (filteredData c bs ! i)\<rparr>)"
proof -
  assume l: "length bs = 24"
  have "filteredData c bs ! i
          = (bs ! i)\<lparr>count := count (filteredData c bs ! i),
                      entries := entries (filteredData c bs ! i)\<rparr>" if "i < 24" for i
    using that l filterBucket_frame[of c "bs ! i"] by (simp add: filteredData_def)
  with l show ?thesis
    by (simp add: filteredData_def filterBucket_labels comp_def)
qed


theorem filter_frame_witness:
  "length (hourlyData (processTimestamps defaultCompare Format24 [row_ct_0915, row_mr_0945, row_ct_1400])) = 24 \<and>
   length (filteredData criteria_ct_morning
      (hourlyData (processTimestamps defaultCompare Format24 [row_ct_0915, row_mr_0945, row_ct_1400]))) = 24 \<and>
   map hour (filteredData criteria_ct_morning
      (hourlyData (processTimestamps defaultCompare Format24 [row_ct_0915, row_mr_0945, row_ct_1400])))
     = map hour (hourlyData (processTimestamps defaultCompare Format24 [row_ct_0915, row_mr_0945, row_ct_1400])) \<and>
   map hour12 (filteredData criteria_ct_morning
      (hourlyData (processTimestamps defaultCompare Format24 [row_ct_0915, row_mr_0945, row_ct_1400])))
     = map hour12 (hourlyData (processTimestamps defaultCompare Format24 [row_ct_0915, row_mr_0945, row_ct_1400]))"
proof -
  have l: "length (hourlyData (processTimestamps defaultCompare Format24
             [row_ct_0915, row_mr_0945, row_ct_1400])) = 24"
    by (rule wfBuckets_length[OF wf_processTimestamps])
  from filter_frame[OF l, of criteria_ct_morning] l show ?thesis by blast
qed

section \<open>Counts after filtering\<close>

lemma filterBucket_count_entries: "count (filterBucket c b) = length (entries (filterBucket c b))"
  by (simp add: filterBucket_def Let_def)

lemma recordPasses_eq:
  "recordPasses c (i, e) \<longleftrightarrow> hourInTimeRange (timeRange c) i \<and> entryMatches c e"
  by (simp add: recordPasses_def)

lemma filterBucket_records:
  assumes "firstNumber (hour b) = Some i"
  shows "map (Pair i) (entries (filterBucket c b)) = filter (recordPasses c) (map (Pair i) (entries b))"
proof (cases "hourInTimeRange (timeRange c) i")
  case True
  then have "filter (recordPasses c) (map (Pair i) (entries b))
               = map (Pair i) (filter (entryMatches c) (entries b))"
    by (simp add: filter_map comp_def recordPasses_eq)
  with True assms show ?thesis
    by (simp add: filterBucket_def Let_def hourInTimeRange_def)
next
  case False
  then have "filter (recordPasses c) (map (Pair i) (entries b)) = []"
    by (simp add: filter_map comp_def recordPasses_eq)
  with False assms show ?thesis
    by (simp add: filterBucket_def Let_def hourInTimeRange_def)
qed

lemma recordsOf_via_zip:
  "recordsOf (map f bs)
     = concat (map (\<lambda>ib. map (Pair (fst ib)) (entries (f (snd ib)))) (zip [0..<length bs] bs))"
proof -
  have "zip [0..<length bs] (map f bs) = map (\<lambda>ib. (fst ib, f (snd ib))) (zip [0..<length bs] bs)"
    by (simp add: zip_map2 case_prod_beta)
  then show ?thesis
    by (simp add: recordsOf_def comp_def case_prod_beta)
qed

lemma filtered_records:
  assumes wf: "wfBuckets bs"
  shows "recordsOf (filteredData c bs) = filter (recordPasses c) (recordsOf bs)"
proof -
  have e: "map (Pair (fst ib)) (entries (filterBucket c (snd ib)))
             = filter (recordPasses c) (map (Pair (fst ib)) (entries (snd ib)))"
    if "ib \<in> set (zip [0..<length bs] bs)" for ib
  proof -
    obtain i b where ib: "ib = (i, b)" by (cases ib)
    with that have "i < length bs" "b = bs ! i"
      by (auto simp: in_set_zip)
    with wf have "firstNumber (hour b) = Some i"
      using wfBuckets_nth(1)[of bs i] by (simp add: wfBuckets_length)
    then show ?thesis unfolding ib by (simp add: filterBucket_records)
  qed
  have "recordsOf (filteredData c bs)
          = concat (map (\<lambda>ib. map (Pair (fst ib)) (entries (filterBucket c (snd ib))))
                        (zip [0..<length bs] bs))"
    unfolding filteredData_def by (rule recordsOf_via_zip)
  also have "\<dots> = concat (map (\<lambda>ib. filter (recordPasses c) (map (Pair (fst ib)) (entries (snd ib))))
                        (zip [0..<length bs] bs))"
    using e by (intro arg_cong[where f = concat] map_cong refl)
  also have "\<dots> = filter (recordPasses c) (recordsOf bs)"
    by (simp add: recordsOf_def filter_concat comp_def case_prod_beta)
  finally show ?thesis .
qed

lemma map_via_zip: "map f bs = map (\<lambda>ib. f (snd ib)) (zip [0..<length bs] bs)"
proof -
  have "map snd (zip [0..<length bs] bs) = bs" by (simp add: map_snd_zip)
  then have "map f bs = map f (map snd (zip [0..<length bs] bs))" by simp
  then show ?thesis by (simp only: map_map comp_def)
qed

lemma length_recordsOf: "length (recordsOf bs) = sum_list (map (\<lambda>b. length (entries b)) bs)"
proof -
  have "length (recordsOf bs)
          = sum_list (map (\<lambda>ib. length (entries (snd ib))) (zip [0..<length bs] bs))"
    by (simp add: recordsOf_def length_concat comp_def case_prod_beta)
  also have "map (\<lambda>ib. length (entries (snd ib))) (zip [0..<length bs] bs)
               = map (\<lambda>b. length (entries b)) bs"
    by (rule map_via_zip[symmetric])
  finally show ?thesis .
qed

lemma filtered_counts_kept:
  assumes wf: "wfBuckets bs"
  shows "sum_list (map count (filteredData c bs)) = length (filter (recordPasses c) (recordsOf bs))"
proof -
  have a: "map count (filteredData c bs) = map (\<lambda>b. length (entries b)) (filteredData c bs)"
    by (simp add: filteredData_def filterBucket_count_entries)
  have "sum_list (map count (filteredData c bs)) = length (recordsOf (filteredData c bs))"
    by (simp only: a length_recordsOf)
  then show ?thesis by (simp only: filtered_records[OF wf])
qed

text \<open>
  The page offers no empty signer: \<open>processTimestamps\<close> adds a signer to the options
  only when it is not empty, and the selection is made among the options.
\<close>

lemma signers_processRow: "[] \<notin> set (signers st) \<Longrightarrow> [] \<notin> set (signers (processRow row st))"
  by (auto simp: processRow_def setAdd_def Let_def split: option.splits prod.splits)

lemma signers_loop:
  "[] \<notin> set (signers st) \<Longrightarrow> [] \<notin> set (signers (foldl (\<lambda>st row. processRow row st) st rows))"
  by (induction rows arbitrary: st) (simp_all add: signers_processRow)

lemma available_signers_nonempty: "[] \<notin> set (availableSigners (processTimestamps cmp tf rows))"
proof -
  have "[] \<notin> set (signers initialState)" by (simp add: initialState_def)
  then have "[] \<notin> set (signers (foldl (\<lambda>st row. processRow row st) initialState rows))"
    by (rule signers_loop)
  then show ?thesis by (simp add: processTimestamps_def Let_def set_sortBy)
qed

lemma spec_recordPasses_eq:
  assumes "[] \<notin> set (selectedSigners c)"
    "range_start (timeRange c) \<noteq> []" "range_end (timeRange c) \<noteq> []"
  shows "spec_recordPasses c ie = recordPasses c ie"
proof -
  have "reportSignedBy (snd ie) \<in> set (selectedSigners c) \<Longrightarrow> reportSignedBy (snd ie) \<noteq> []"
    using assms(1) by auto
  then show ?thesis
    using assms(2,3)
    by (auto simp: spec_recordPasses_def recordPasses_def spec_hourInTimeRange_def hourInTimeRange_def
        entryMatches_def spec_categorical_def spec_dateInRange_def Let_def)
qed

text \<open>
  C5, amended. On the hour buckets of the data model and for every filter criteria of
  the page (no empty signer in the selection) whose time range has both bounds set,
  the counts of the filtered buckets add up to the number of input records that
  satisfy all the predicates, the count of every filtered bucket is the length of its
  entries, and the records of the filtered buckets are the input records that satisfy
  the predicates, each once and in its order: none is lost and none is duplicated.
\<close>

theorem filtered_counts:
  "wfBuckets bs \<Longrightarrow> [] \<notin> set (selectedSigners c) \<Longrightarrow>
   range_start (timeRange c) \<noteq> [] \<Longrightarrow> range_end (timeRange c) \<noteq> [] \<Longrightarrow>
     sum_list (map count (filteredData c bs)) = length (filter (spec_recordPasses c) (recordsOf bs)) \<and>
     list_all (\<lambda>b. count b = length (entries b)) (filteredData c bs) \<and>
     recordsOf (filteredData c bs) = filter (spec_recordPasses c) (recordsOf bs)"
proof -
  assume wf: "wfBuckets bs" and sg: "[] \<notin> set (selectedSigners c)"
    and st: "range_start (timeRange c) \<noteq> []" and en: "range_end (timeRange c) \<noteq> []"
  have p: "filter (spec_recordPasses c) xs = filter (recordPasses c) xs" for xs
    using spec_recordPasses_eq[OF sg st en] by (intro filter_cong refl)
  have "list_all (\<lambda>b. count b = length (entries b)) (filteredData c bs)"
    by (simp add: list_all_iff filteredData_def filterBucket_count_entries)
  with filtered_counts_kept[OF wf, of c] filtered_records[OF wf, of c] show ?thesis
    by (simp add: p)
qed

lemma dr_a_morning_view:
  "sum_list (map count (filteredData criteria_dr_a_morning
      (hourlyData (processTimestamps defaultCompare Format24 [row_ct_0915, row_mr_0945, row_ct_1400])))) = 1"
  by code_simp

theorem filtered_counts_witness:
  "wfBuckets (hourlyData (processTimestamps defaultCompare Format24 [row_ct_0915, row_mr_0945, row_ct_1400])) \<and>
   [] \<notin> set (selectedSigners criteria_dr_a_morning) \<and>
   range_start (timeRange criteria_dr_a_morning) \<noteq> [] \<and>
   range_end (timeRange criteria_dr_a_morning) \<noteq> [] \<and>
   length (filter (spec_recordPasses criteria_dr_a_morning)
     (recordsOf (hourlyData (processTimestamps defaultCompare Format24 [row_ct_0915, row_mr_0945, row_ct_1400])))) = 1 \<and>
   recordsOf (filteredData criteria_dr_a_morning
       (hourlyData (processTimestamps defaultCompare Format24 [row_ct_0915, row_mr_0945, row_ct_1400])))
     = filter (spec_recordPasses criteria_dr_a_morning)
         (recordsOf (hourlyData (processTimestamps defaultCompare Format24 [row_ct_0915, row_mr_0945, row_ct_1400])))"
proof -
  have h: "[] \<notin> set (selectedSigners criteria_dr_a_morning)"
    "range_start (timeRange criteria_dr_a_morning) \<noteq> []"
    "range_end (timeRange criteria_dr_a_morning) \<noteq> []"
    by (simp_all add: criteria_dr_a_morning_def)
  from filtered_counts[OF wf_processTimestamps h] dr_a_morning_view h wf_processTimestamps
  show ?thesis by simp
qed

lemma cleared_views:
  "sum_list (map count (filteredData criteria_end_cleared
      (hourlyData (processTimestamps defaultCompare Format24 [row_ct_0915, row_mr_0945, row_ct_1400])))) = 0"
  "length (filter (spec_recordPasses criteria_end_cleared)
      (recordsOf (hourlyData (processTimestamps defaultCompare Format24 [row_ct_0915, row_mr_0945, row_ct_1400])))) = 3"
  "sum_list (map count (filteredData criteria_start_cleared
      (hourlyData (processTimestamps defaultCompare Format24 [row_ct_0915, row_mr_0945, row_ct_1400])))) = 2"
  "length (filter (spec_recordPasses criteria_start_cleared)
      (recordsOf (hourlyData (processTimestamps defaultCompare Format24 [row_ct_0915, row_mr_0945, row_ct_1400])))) = 3"
  by code_simp+

text \<open>
  C5 as stated fails: with the end of the time range cleared, or its start, the
  specification takes the range for the full day and all three records satisfy the
  predicates, and the filter reads the empty bound as hour 0: no record is left in the
  first case, and the record of 14:00 is lost in the second.
\<close>

theorem filtered_counts_counterexample:
  "wfBuckets (hourlyData (processTimestamps defaultCompare Format24 [row_ct_0915, row_mr_0945, row_ct_1400])) \<and>
   sum_list (map count (filteredData criteria_end_cleared
      (hourlyData (processTimestamps defaultCompare Format24 [row_ct_0915, row_mr_0945, row_ct_1400]))))
     \<noteq> length (filter (spec_recordPasses criteria_end_cleared)
         (recordsOf (hourlyData (processTimestamps defaultCompare Format24 [row_ct_0915, row_mr_0945, row_ct_1400])))) \<and>
   sum_list (map count (filteredData criteria_start_cleared
      (hourlyData (processTimestamps defaultCompare Format24 [row_ct_0915, row_mr_0945, row_ct_1400]))))
     \<noteq> length (filter (spec_recordPasses criteria_start_cleared)
         (recordsOf (hourlyData (processTimestamps defaultCompare Format24 [row_ct_0915, row_mr_0945, row_ct_1400]))))"
  by (simp add: cleared_views wf_processTimestamps)

section \<open>Peak hour\<close>

lemma peak_index:
  "ys \<noteq> [] \<Longrightarrow>
   \<exists>i<length ys. foldl pickPeak (hd ys) (tl ys) = ys ! i \<and>
                  (\<forall>j<length ys. count (ys ! j) \<le> count (ys ! i)) \<and>
                  (\<forall>j<i. count (ys ! j) < count (ys ! i))"
proof (induction ys rule: rev_nonempty_induct)
  case (single x)
  then show ?case by simp
next
  case (snoc y ys)
  then obtain i where i: "i < length ys" and r: "foldl pickPeak (hd ys) (tl ys) = ys ! i"
    and mx: "\<forall>j<length ys. count (ys ! j) \<le> count (ys ! i)"
    and fst: "\<forall>j<i. count (ys ! j) < count (ys ! i)"
    by blast
  from snoc(1) have f: "foldl pickPeak (hd (ys @ [y])) (tl (ys @ [y])) = pickPeak (ys ! i) y"
    by (simp add: r)
  show ?case
  proof (cases "count y > count (ys ! i)")
    case True
    have "length ys < length (ys @ [y])" by simp
    moreover have "foldl pickPeak (hd (ys @ [y])) (tl (ys @ [y])) = (ys @ [y]) ! length ys"
      using f True by (simp add: pickPeak_def)
    moreover have "\<forall>j<length (ys @ [y]). count ((ys @ [y]) ! j) \<le> count ((ys @ [y]) ! length ys)"
    proof (intro allI impI)
      fix j assume "j < length (ys @ [y])"
      then consider "j < length ys" | "j = length ys" by fastforce
      then show "count ((ys @ [y]) ! j) \<le> count ((ys @ [y]) ! length ys)"
      proof cases
        case 1
        with mx have "count (ys ! j) \<le> count (ys ! i)" by blast
        with True 1 show ?thesis by (simp add: nth_append)
      next
        case 2
        then show ?thesis by simp
      qed
    qed
    moreover have "\<forall>j<length ys. count ((ys @ [y]) ! j) < count ((ys @ [y]) ! length ys)"
    proof (intro allI impI)
      fix j assume j: "j < length ys"
      with mx have "count (ys ! j) \<le> count (ys ! i)" by blast
      with True j show "count ((ys @ [y]) ! j) < count ((ys @ [y]) ! length ys)"
        by (simp add: nth_append)
    qed
    ultimately show ?thesis by blast
  next
    case False
    have "i < length (ys @ [y])" using i by simp
    moreover have "foldl pickPeak (hd (ys @ [y])) (tl (ys @ [y])) = (ys @ [y]) ! i"
      using f False i by (simp add: pickPeak_def nth_append)
    moreover have "\<forall>j<length (ys @ [y]). count ((ys @ [y]) ! j) \<le> count ((ys @ [y]) ! i)"
    proof (intro allI impI)
      fix j assume "j < length (ys @ [y])"
      then consider "j < length ys" | "j = length ys" by fastforce
      then show "count ((ys @ [y]) ! j) \<le> count ((ys @ [y]) ! i)"
      proof cases
        case 1
        with mx have "count (ys ! j) \<le> count (ys ! i)" by blast
        with i 1 show ?thesis by (simp add: nth_append)
      next
        case 2
        with False i show ?thesis by (simp add: nth_append)
      qed
    qed
    moreover have "\<forall>j<i. count ((ys @ [y]) ! j) < count ((ys @ [y]) ! i)"
    proof (intro allI impI)
      fix j assume j: "j < i"
      with fst have "count (ys ! j) < count (ys ! i)" by blast
      with i j show "count ((ys @ [y]) ! j) < count ((ys @ [y]) ! i)"
        by (simp add: nth_append)
    qed
    ultimately show ?thesis by blast
  qed
qed

lemma peakHour_foldl: "fd \<noteq> [] \<Longrightarrow> peakHour fd = Inr (foldl pickPeak (hd fd) (tl fd))"
  by (cases fd) (simp_all add: peakHour_def reduce1_def)

lemma peakHour_empty: "peakHour [] = Inl TypeError"
  by (simp add: peakHour_def reduce1_def)

text \<open>
  C6. On a bucket sequence that is not empty, the peak hour of the summary report
  (and of the peak-hour card) is the bucket at the first index whose count no bucket
  exceeds: every earlier bucket has a strictly smaller count, so among the buckets
  that tie for the greatest count the one of the lowest hour is taken. With the
  counts 5, 5, 3 at the hours 0, 1, 2 the peak hour is hour 0.
\<close>

theorem peak_hour_first_max:
  "(fd \<noteq> [] \<longrightarrow>
      (\<exists>i<length fd.
          peakHour fd = Inr (fd ! i) \<and>
          (\<forall>j<length fd. count (fd ! j) \<le> count (fd ! i)) \<and>
          (\<forall>j<i. count (fd ! j) < count (fd ! i)) \<and>
          generateSummaryReport tf fd
            = Some (Inr \<lparr>totalFilteredStudies = foldl (\<lambda>total cur. total + count cur) 0 fd,
                         activeHours = length (filter (\<lambda>d. count d > 0) fd),
                         peakHourLabel = hourLabel tf (fd ! i),
                         peakHourStudies = count (fd ! i)\<rparr>) \<and>
          map_sum id peakHourLabel (generateSummaryReport_App tf fd) = Inr (hourLabel tf (fd ! i)) \<and>
          peakHourCard tf fd = Inr (hourLabel tf (fd ! i)))) \<and>
   map count (filteredData clearFilters (hourlyData (processTimestamps defaultCompare Format24 rows_553)))
     = [5, 5, 3, 0, 0, 0, 0, 0, 0, 0, 0, 0, 0, 0, 0, 0, 0, 0, 0, 0, 0, 0, 0, 0] \<and>
   map_sum id hour (peakHour (filteredData clearFilters
       (hourlyData (processTimestamps defaultCompare Format24 rows_553)))) = Inr ''00:00''"
proof (intro conjI impI)
  assume ne: "fd \<noteq> []"
  from peak_index[OF ne] obtain i where i: "i < length fd"
    and r: "foldl pickPeak (hd fd) (tl fd) = fd ! i"
    and mx: "\<forall>j<length fd. count (fd ! j) \<le> count (fd ! i)"
    and fs: "\<forall>j<i. count (fd ! j) < count (fd ! i)"
    by blast
  have p: "peakHour fd = Inr (fd ! i)" using peakHour_foldl[OF ne] r by simp
  have g: "generateSummaryReport tf fd
            = Some (Inr \<lparr>totalFilteredStudies = foldl (\<lambda>total cur. total + count cur) 0 fd,
                         activeHours = length (filter (\<lambda>d. count d > 0) fd),
                         peakHourLabel = hourLabel tf (fd ! i),
                         peakHourStudies = count (fd ! i)\<rparr>)"
    using ne p by (simp add: generateSummaryReport_def overviewOf_def)
  have a: "map_sum id peakHourLabel (generateSummaryReport_App tf fd) = Inr (hourLabel tf (fd ! i))"
    using p by (simp add: generateSummaryReport_App_def overviewOf_def)
  have c: "peakHourCard tf fd = Inr (hourLabel tf (fd ! i))"
    using ne p by (simp add: peakHourCard_def)
  from i p mx fs g a c
  show "\<exists>i<length fd.
          peakHour fd = Inr (fd ! i) \<and>
          (\<forall>j<length fd. count (fd ! j) \<le> count (fd ! i)) \<and>
          (\<forall>j<i. count (fd ! j) < count (fd ! i)) \<and>
          generateSummaryReport tf fd
            = Some (Inr \<lparr>totalFilteredStudies = foldl (\<lambda>total cur. total + count cur) 0 fd,
                         activeHours = length (filter (\<lambda>d. count d > 0) fd),
                         peakHourLabel = hourLabel tf (fd ! i),
                         peakHourStudies = count (fd ! i)\<rparr>) \<and>
          map_sum id peakHourLabel (generateSummaryReport_App tf fd) = Inr (hourLabel tf (fd ! i)) \<and>
          peakHourCard tf fd = Inr (hourLabel tf (fd ! i))"
    by blast
next
  show "map count (filteredData clearFilters (hourlyData (processTimestamps defaultCompare Format24 rows_553)))
     = [5, 5, 3, 0, 0, 0, 0, 0, 0, 0, 0, 0, 0, 0, 0, 0, 0, 0, 0, 0, 0, 0, 0, 0]"
    by code_simp
next
  show "map_sum id hour (peakHour (filteredData clearFilters
       (hourlyData (processTimestamps defaultCompare Format24 rows_553)))) = Inr ''00:00''"
    by code_simp
qed


theorem peak_hour_first_max_witness:
  "hourlyData (processTimestamps defaultCompare Format24 rows_553) \<noteq> [] \<and>
   (\<exists>i<length (hourlyData (processTimestamps defaultCompare Format24 rows_553)).
      peakHour (hourlyData (processTimestamps defaultCompare Format24 rows_553))
        = Inr (hourlyData (processTimestamps defaultCompare Format24 rows_553) ! i) \<and>
      (\<forall>j<i. count (hourlyData (processTimestamps defaultCompare Format24 rows_553) ! j)
                < count (hourlyData (processTimestamps defaultCompare Format24 rows_553) ! i)))"
proof -
  have "length (hourlyData (processTimestamps defaultCompare Format24 rows_553)) = 24"
    by (rule wfBuckets_length[OF wf_processTimestamps])
  then have ne: "hourlyData (processTimestamps defaultCompare Format24 rows_553) \<noteq> []"
    by auto
  with peak_hour_first_max[of "hourlyData (processTimestamps defaultCompare Format24 rows_553)" Format24]
  show ?thesis by blast
qed

lemma peak_member:
  assumes "fd \<noteq> []"
  shows "\<exists>b\<in>set fd. peakHour fd = Inr b \<and> (\<forall>b'\<in>set fd. count b' \<le> count b)"
proof -
  from peak_index[OF assms] obtain i where i: "i < length fd"
    and r: "foldl pickPeak (hd fd) (tl fd) = fd ! i"
    and mx: "\<forall>j<length fd. count (fd ! j) \<le> count (fd ! i)"
    by blast
  have "fd ! i \<in> set fd" using i by simp
  moreover have "peakHour fd = Inr (fd ! i)" using peakHour_foldl[OF assms] r by simp
  moreover have "\<forall>b'\<in>set fd. count b' \<le> count (fd ! i)"
    using mx by (auto simp: in_set_conv_nth)
  ultimately show ?thesis by blast
qed

text \<open>
  C7, amended. The peak-hour card of the workflow page shows the explicit value
  "N/A" when the filtered bucket sequence is empty; it never raises, so no bucket
  beyond the sequence is read; and whenever a record passes the filters it shows the
  label of a bucket of the sequence with the greatest count, which is positive (the
  card of the single-page application shows the same label).
\<close>

theorem peak_hour_no_data:
  "peakHourCard tf [] = Inr ''N/A'' \<and>
   (\<exists>s. peakHourCard tf fd = Inr s) \<and>
   (0 < sum_list (map count fd) \<longrightarrow>
      (\<exists>b\<in>set fd. 0 < count b \<and> (\<forall>b'\<in>set fd. count b' \<le> count b) \<and>
                   peakHourCard tf fd = Inr (hourLabel tf b) \<and>
                   peakHourCard_App tf fd = Inr (hourLabel tf b)))"
proof (intro conjI impI)
  show "peakHourCard tf [] = Inr ''N/A''" by (simp add: peakHourCard_def)
next
  show "\<exists>s. peakHourCard tf fd = Inr s"
  proof (cases "fd = []")
    case True
    then show ?thesis by (simp add: peakHourCard_def)
  next
    case False
    from peak_member[OF False] obtain b where "peakHour fd = Inr b" by blast
    with False show ?thesis by (simp add: peakHourCard_def)
  qed
next
  assume pos: "0 < sum_list (map count fd)"
  then have ne: "fd \<noteq> []" by auto
  from peak_member[OF ne] obtain b where b: "b \<in> set fd" "peakHour fd = Inr b"
    and mx: "\<forall>b'\<in>set fd. count b' \<le> count b" by blast
  have "0 < count b"
  proof (rule ccontr)
    assume "\<not> 0 < count b"
    with mx have "\<forall>b'\<in>set fd. count b' = 0" by auto
    then have "sum_list (map count fd) = 0" by simp
    with pos show False by simp
  qed
  moreover have "peakHourCard tf fd = Inr (hourLabel tf b)"
    using ne b(2) by (simp add: peakHourCard_def)
  moreover have "peakHourCard_App tf fd = Inr (hourLabel tf b)"
    using b(2) by (simp add: peakHourCard_App_def)
  ultimately show "\<exists>b\<in>set fd. 0 < count b \<and> (\<forall>b'\<in>set fd. count b' \<le> count b) \<and>
                   peakHourCard tf fd = Inr (hourLabel tf b) \<and>
                   peakHourCard_App tf fd = Inr (hourLabel tf b)"
    using b(1) mx by blast
qed

lemma no_data_view:
  "sum_list (map count (filteredData criteria_none_pass
      (hourlyData (processTimestamps defaultCompare Format24 [row_ct_0915, row_mr_0945, row_ct_1400])))) = 0"
  "recordsOf (filteredData criteria_none_pass
      (hourlyData (processTimestamps defaultCompare Format24 [row_ct_0915, row_mr_0945, row_ct_1400]))) = []"
  "peakHourCard Format24 (filteredData criteria_none_pass
      (hourlyData (processTimestamps defaultCompare Format24 [row_ct_0915, row_mr_0945, row_ct_1400])))
     = Inr ''00:00''"
  by code_simp+

text \<open>
  C7 as stated fails: with the 24 buckets in place and no record passing the filters,
  every count is 0 and the card shows "00:00", the label of the first bucket.
\<close>

theorem peak_hour_no_data_counterexample:
  "recordsOf (filteredData criteria_none_pass
      (hourlyData (processTimestamps defaultCompare Format24 [row_ct_0915, row_mr_0945, row_ct_1400]))) = [] \<and>
   sum_list (map count (filteredData criteria_none_pass
      (hourlyData (processTimestamps defaultCompare Format24 [row_ct_0915, row_mr_0945, row_ct_1400])))) = 0 \<and>
   peakHourCard Format24 (filteredData criteria_none_pass
      (hourlyData (processTimestamps defaultCompare Format24 [row_ct_0915, row_mr_0945, row_ct_1400])))
     = Inr ''00:00'' \<and>
   peakHourCard Format24 (filteredData criteria_none_pass
      (hourlyData (processTimestamps defaultCompare Format24 [row_ct_0915, row_mr_0945, row_ct_1400])))
     \<noteq> Inr ''N/A''"
  by (simp add: no_data_view)

lemma some_data_view:
  "sum_list (map count (filteredData criteria_ct_morning
      (hourlyData (processTimestamps defaultCompare Format24 [row_ct_0915, row_mr_0945, row_ct_1400])))) = 1"
  by code_simp

theorem peak_hour_no_data_witness:
  "0 < sum_list (map count (filteredData criteria_ct_morning
      (hourlyData (processTimestamps defaultCompare Format24 [row_ct_0915, row_mr_0945, row_ct_1400])))) \<and>
   (\<exists>b\<in>set (filteredData criteria_ct_morning
      (hourlyData (processTimestamps defaultCompare Format24 [row_ct_0915, row_mr_0945, row_ct_1400]))).
      0 < count b \<and>
      peakHourCard Format24 (filteredData criteria_ct_morning
        (hourlyData (processTimestamps defaultCompare Format24 [row_ct_0915, row_mr_0945, row_ct_1400])))
        = Inr (hourLabel Format24 b))"
proof -
  have p: "0 < sum_list (map count (filteredData criteria_ct_morning
      (hourlyData (processTimestamps defaultCompare Format24 [row_ct_0915, row_mr_0945, row_ct_1400]))))"
    by (simp add: some_data_view)
  with peak_hour_no_data[of Format24 "filteredData criteria_ct_morning
      (hourlyData (processTimestamps defaultCompare Format24 [row_ct_0915, row_mr_0945, row_ct_1400]))"]
  show ?thesis by blast
qed

section \<open>The date filter of the productivity view\<close>

text \<open>
  C8, amended. In the productivity view, for every record and every date range with
  both bounds non-empty, the date filter reads the two bounds with the pattern
  \<open>yyyy-MM-dd\<close> and the date of the record with the pattern \<open>MM/dd/yyyy\<close> and
  compares them as dates: the record is excluded exactly when all three are valid and
  its date lies strictly before the start or strictly after the end. Whenever one of
  the three is not a valid date the record passes, as does a record without a date.
\<close>

theorem date_filter_permissive:
  "range_start dr \<noteq> [] \<Longrightarrow> range_end dr \<noteq> [] \<Longrightarrow>
   parse (range_start dr) ''yyyy-MM-dd'' = Inr s \<Longrightarrow>
   parse (range_end dr) ''yyyy-MM-dd'' = Inr e \<Longrightarrow>
   parse dt ''MM/dd/yyyy'' = Inr cur \<Longrightarrow>
     (dateFilter parse dr (Some dt) \<longleftrightarrow>
        \<not> (dt \<noteq> [] \<and> isValid s \<and> isValid e \<and> isValid cur \<and> (dateBefore cur s \<or> dateBefore e cur))) \<and>
     (\<not> isValid s \<or> \<not> isValid e \<or> \<not> isValid cur \<longrightarrow> dateFilter parse dr (Some dt)) \<and>
     dateFilter parse dr None"
  by (auto simp: dateFilter_def)

lemma date_examples:
  "dateFnsParse ''2024-01-02'' ''yyyy-MM-dd'' = Inr (ValidDate 20240102)"
  "dateFnsParse ''2024-01-03'' ''yyyy-MM-dd'' = Inr (ValidDate 20240103)"
  "dateFnsParse ''01/01/2024'' ''MM/dd/yyyy'' = Inr (ValidDate 20240101)"
  "dateFnsParse ''01/02/2024'' ''MM/dd/yyyy'' = Inr (ValidDate 20240102)"
  "dateFnsParse ''13/45/2024'' ''MM/dd/yyyy'' = Inr InvalidDate"
  "dateFnsParse ''2024-01-02'' ''MM/dd/yyyy'' = Inr InvalidDate"
  "dateFnsParse ''2024-01-03'' ''MM/dd/yyyy'' = Inr InvalidDate"
  by (simp_all add: dateFnsParse_def calendarDate_def numericField_def lastNumericField_def
      daysInMonth_def isDigit_def isSpace_def digitsValue_def digitVal_def)

theorem date_filter_permissive_witness:
  "range_start range_jan2_jan3 \<noteq> [] \<and> range_end range_jan2_jan3 \<noteq> [] \<and>
   dateFnsParse (range_start range_jan2_jan3) ''yyyy-MM-dd'' = Inr (ValidDate 20240102) \<and>
   dateFnsParse (range_end range_jan2_jan3) ''yyyy-MM-dd'' = Inr (ValidDate 20240103) \<and>
   dateFnsParse ''01/01/2024'' ''MM/dd/yyyy'' = Inr (ValidDate 20240101) \<and>
   dateFnsParse ''01/02/2024'' ''MM/dd/yyyy'' = Inr (ValidDate 20240102) \<and>
   dateFnsParse ''13/45/2024'' ''MM/dd/yyyy'' = Inr InvalidDate \<and>
   \<not> dateFilter dateFnsParse range_jan2_jan3 (Some ''01/01/2024'') \<and>
   dateFilter dateFnsParse range_jan2_jan3 (Some ''01/02/2024'') \<and>
   dateFilter dateFnsParse range_jan2_jan3 (Some ''13/45/2024'')"
proof -
  have r: "range_start range_jan2_jan3 \<noteq> []" "range_end range_jan2_jan3 \<noteq> []"
    by (simp_all add: range_jan2_jan3_def)
  have s: "dateFnsParse (range_start range_jan2_jan3) ''yyyy-MM-dd'' = Inr (ValidDate 20240102)"
    and e: "dateFnsParse (range_end range_jan2_jan3) ''yyyy-MM-dd'' = Inr (ValidDate 20240103)"
    by (simp_all add: range_jan2_jan3_def date_examples)
  note t = date_filter_permissive[where dr = range_jan2_jan3 and parse = dateFnsParse, OF r s e]
  have a: "\<not> dateFilter dateFnsParse range_jan2_jan3 (Some ''01/01/2024'')"
    using t[OF date_examples(3)] by (simp add: isValid_def dateBefore_def)
  have b: "dateFilter dateFnsParse range_jan2_jan3 (Some ''01/02/2024'')"
    using t[OF date_examples(4)] by (simp add: isValid_def dateBefore_def)
  have c: "dateFilter dateFnsParse range_jan2_jan3 (Some ''13/45/2024'')"
    using t[OF date_examples(5)] by (simp add: isValid_def dateBefore_def)
  from r s e a b c date_examples(3,4,5) show ?thesis by blast
qed

text \<open>
  C8 as stated fails: were the bounds read with the month/day/year pattern, as the
  date of the record is, the bounds 2024-01-02 and 2024-01-03 would not be dates and
  the record of 01/01/2024 would pass; the filter reads them as dates and excludes it.
\<close>

theorem date_filter_pattern_counterexample:
  "\<not> dateFilter dateFnsParse range_jan2_jan3 (Some ''01/01/2024'') \<and>
   spec_dateFilter dateFnsParse range_jan2_jan3 (Some ''01/01/2024'')"
  by (simp add: dateFilter_def spec_dateFilter_def range_jan2_jan3_def date_examples
      isValid_def dateBefore_def)



section \<open>Modality percentages\<close>

lemma percentageOf_value:
  "percentageOf cnt tot = Some (if 0 < tot then real cnt / real tot * 100 else 0)"
  by (simp add: percentageOf_def jsDivide_def)

lemma map_of_bumpCount:
  "map_of (bumpCount k m) k' =
     (if k' = k then Some ((case map_of m k of None \<Rightarrow> 0 | Some c \<Rightarrow> c) + 1) else map_of m k')"
  by (simp add: bumpCount_def update_conv')

lemma distinct_bumpCount: "distinct (map fst m) \<Longrightarrow> distinct (map fst (bumpCount k m))"
  by (simp add: bumpCount_def distinct_update)

lemma count_fold:
  "map_of (foldl (\<lambda>m row. bumpCount (f row) m) m0 rows) k =
     (case map_of m0 k of
        None \<Rightarrow> (if length (filter (\<lambda>r. f r = k) rows) = 0 then None
                  else Some (length (filter (\<lambda>r. f r = k) rows)))
      | Some c \<Rightarrow> Some (c + length (filter (\<lambda>r. f r = k) rows)))"
proof (induction rows arbitrary: m0)
  case Nil
  then show ?case by (simp split: option.splits)
next
  case (Cons r rows)
  show ?case
    by (simp add: Cons.IH map_of_bumpCount split: option.splits)
qed

lemma distinct_fold:
  "distinct (map fst m0) \<Longrightarrow> distinct (map fst (foldl (\<lambda>m row. bumpCount (f row) m) m0 rows))"
  by (induction rows arbitrary: m0) (simp_all add: distinct_bumpCount)

lemma modalityCountMap_member:
  assumes "(m, c) \<in> set (modalityCountMap rows)"
  shows "c = length (filter (\<lambda>r. orDefault (r ''Mod.'') ''N/A'' = m) rows) \<and> 0 < c"
proof -
  have d: "distinct (map fst (modalityCountMap rows))"
    unfolding modalityCountMap_def by (rule distinct_fold) simp
  with assms have "map_of (modalityCountMap rows) m = Some c" by simp
  then have "length (filter (\<lambda>r. orDefault (r ''Mod.'') ''N/A'' = m) rows) \<noteq> 0 \<and>
             c = length (filter (\<lambda>r. orDefault (r ''Mod.'') ''N/A'' = m) rows)"
    unfolding modalityCountMap_def count_fold by (simp split: if_splits)
  then show ?thesis by simp
qed

lemma processedModalityData_member:
  assumes "d \<in> set (processedModalityData rows)"
  shows "md_percentage d = percentageOf (md_count d) (length rows) \<and>
         md_count d = length (filter (\<lambda>r. orDefault (r ''Mod.'') ''N/A'' = md_modality d) rows) \<and>
         0 < md_count d"
proof -
  from assms obtain m c where mc: "(m, c) \<in> set (modalityCountMap rows)"
    and d: "d = \<lparr>md_modality = m, md_count = c, md_percentage = percentageOf c (length rows)\<rparr>"
    by (auto simp: processedModalityData_def Let_def set_sortBy)
  note mm = modalityCountMap_member[OF mc]
  have "c = length (filter (\<lambda>r. orDefault (r ''Mod.'') ''N/A'' = m) rows)"
    by (rule conjunct1[OF mm])
  moreover have "0 < c" by (rule conjunct2[OF mm])
  ultimately show ?thesis unfolding d by simp
qed

lemma keys_modalityCountMap:
  "set (map fst (modalityCountMap rows)) = (\<lambda>r. orDefault (r ''Mod.'') ''N/A'') ` set rows"
proof (rule set_eqI)
  fix k
  have "k \<in> set (map fst (modalityCountMap rows)) \<longleftrightarrow> map_of (modalityCountMap rows) k \<noteq> None"
    by (simp add: map_of_eq_None_iff)
  also have "\<dots> \<longleftrightarrow> filter (\<lambda>r. orDefault (r ''Mod.'') ''N/A'' = k) rows \<noteq> []"
    unfolding modalityCountMap_def count_fold by simp
  also have "\<dots> \<longleftrightarrow> k \<in> (\<lambda>r. orDefault (r ''Mod.'') ''N/A'') ` set rows"
    by (auto simp: filter_empty_conv)
  finally show "k \<in> set (map fst (modalityCountMap rows))
                  \<longleftrightarrow> k \<in> (\<lambda>r. orDefault (r ''Mod.'') ''N/A'') ` set rows" .
qed

lemma sum_update_count:
  "sum_list (map snd (AList.update k (Suc (case map_of m k of None \<Rightarrow> 0 | Some c \<Rightarrow> c)) m))
     = Suc (sum_list (map snd m))"
  by (induction m) auto

lemma sum_bumpCount: "sum_list (map snd (bumpCount k m)) = Suc (sum_list (map snd m))"
  using sum_update_count[of k m] by (simp add: bumpCount_def)

lemma sum_fold:
  "sum_list (map snd (foldl (\<lambda>m row. bumpCount (f row) m) m0 rows))
     = sum_list (map snd m0) + length rows"
  by (induction rows arbitrary: m0) (simp_all add: sum_bumpCount)

lemma sum_insertBy:
  "sum_list (map g (insertBy cmp x ys)) = (g :: 'a \<Rightarrow> nat) x + sum_list (map g ys)"
  by (induction ys) auto

lemma sum_sortBy: "sum_list (map g (sortBy cmp xs)) = sum_list (map (g :: 'a \<Rightarrow> nat) xs)"
  unfolding sortBy_def by (induction xs) (simp_all add: sum_insertBy)

lemma distinct_insertBy:
  "distinct (map f (insertBy cmp x ys)) \<longleftrightarrow> f x \<notin> f ` set ys \<and> distinct (map f ys)"
  by (induction ys) (auto simp: set_insertBy)

lemma distinct_sortBy: "distinct (map f (sortBy cmp xs)) \<longleftrightarrow> distinct (map f xs)"
proof (induction xs)
  case Nil
  then show ?case by (simp add: sortBy_def)
next
  case (Cons x xs)
  have "sortBy cmp (x # xs) = insertBy cmp x (sortBy cmp xs)" by (simp add: sortBy_def)
  then show ?case using Cons by (simp add: distinct_insertBy set_sortBy)
qed

lemma aggregates_fields:
  "map md_modality (map (\<lambda>(m, c). \<lparr>md_modality = m, md_count = c, md_percentage = p c\<rparr>) al) = map fst al"
  "map md_count (map (\<lambda>(m, c). \<lparr>md_modality = m, md_count = c, md_percentage = p c\<rparr>) al) = map snd al"
  by (induction al) auto

lemma processedModalityData_modalities:
  "distinct (map md_modality (processedModalityData rows))"
  "set (map md_modality (processedModalityData rows)) = (\<lambda>r. orDefault (r ''Mod.'') ''N/A'') ` set rows"
  "sum_list (map md_count (processedModalityData rows)) = length rows"
proof -
  let ?mk = "\<lambda>(m, c). \<lparr>md_modality = m, md_count = c, md_percentage = percentageOf c (length rows)\<rparr>"
  let ?cmp = "\<lambda>a b. int (md_count b) - int (md_count a)"
  have p: "processedModalityData rows = sortBy ?cmp (map ?mk (modalityCountMap rows))"
    by (simp add: processedModalityData_def Let_def)
  have d: "distinct (map fst (modalityCountMap rows))"
    unfolding modalityCountMap_def by (rule distinct_fold) simp
  show "distinct (map md_modality (processedModalityData rows))"
    unfolding p distinct_sortBy aggregates_fields by (rule d)
  have "set (map md_modality (processedModalityData rows))
          = md_modality ` set (map ?mk (modalityCountMap rows))"
    unfolding p by (simp only: set_map set_sortBy)
  also have "\<dots> = set (map md_modality (map ?mk (modalityCountMap rows)))"
    by (simp only: set_map)
  also have "\<dots> = (\<lambda>r. orDefault (r ''Mod.'') ''N/A'') ` set rows"
    unfolding aggregates_fields by (rule keys_modalityCountMap)
  finally show "set (map md_modality (processedModalityData rows))
                  = (\<lambda>r. orDefault (r ''Mod.'') ''N/A'') ` set rows" .
  have "sum_list (map md_count (processedModalityData rows))
          = sum_list (map snd (modalityCountMap rows))"
    unfolding p sum_sortBy aggregates_fields by (rule refl)
  also have "\<dots> = length rows"
    unfolding modalityCountMap_def sum_fold by simp
  finally show "sum_list (map md_count (processedModalityData rows)) = length rows" .
qed

lemma processedAggregated_eq:
  "processedAggregatedModalityData rows = processedModalityData rows"
proof -
  let ?mk = "\<lambda>(m, c). \<lparr>md_modality = m, md_count = c, md_percentage = percentageOf c (length rows)\<rparr>"
  have "\<forall>d\<in>set (map ?mk (modalityCountMap rows)). md_count d > 0"
    using modalityCountMap_member by fastforce
  then have "filter (\<lambda>d. md_count d > 0) (map ?mk (modalityCountMap rows))
               = map ?mk (modalityCountMap rows)"
    by (simp only: filter_True)
  then show ?thesis
    by (simp add: processedAggregatedModalityData_def processedModalityData_def Let_def)
qed

lemma processedModalityData_Nil: "processedModalityData [] = []"
  by (simp add: processedModalityData_def modalityCountMap_def sortBy_def)

lemma rows_pass_all_day:
  "rowPasses dateFnsParse staff_all_day row_ct_0915 = Inr True"
  "rowPasses dateFnsParse staff_all_day row_mr_0945 = Inr True"
  "rowPasses dateFnsParse staff_all_day row_ct_1400 = Inr True"
  by code_simp+

lemma no_time_raises: "rowPasses dateFnsParse staff_all_day row_no_time = Inl TypeError"
  by code_simp

lemma filterRows_all_day:
  "filterRows (rowPasses dateFnsParse staff_all_day) [row_ct_0915, row_mr_0945, row_ct_1400]
     = Inr [row_ct_0915, row_mr_0945, row_ct_1400]"
  by (simp only: filterRows.simps rows_pass_all_day sum.case if_True)

lemma example_modalities:
  "orDefault (row_ct_0915 ''Mod.'') ''N/A'' = ''CT''"
  "orDefault (row_mr_0945 ''Mod.'') ''N/A'' = ''MR''"
  "orDefault (row_ct_1400 ''Mod.'') ''N/A'' = ''CT''"
  by code_simp+

text \<open>
  C9. For the rows that passed the filter there is exactly one modality aggregate for
  every modality among them and none for any other; its count is the number of
  filtered rows of that modality, the counts add up to the grand total, and its
  percentage is its count divided by the grand total and multiplied by 100 when the
  grand total is positive, and 0 when it is 0: the result is always a finite number,
  no division by 0 taking place. With a grand total of 0 there is no aggregate.
\<close>

theorem modality_percentage:
  "processData parse c rows = Inr pd \<Longrightarrow>
     (\<exists>filteredRows. filterRows (rowPasses parse c) rows = Inr filteredRows \<and>
        totalStudies pd = length filteredRows \<and>
        distinct (map md_modality (modalityData pd)) \<and>
        set (map md_modality (modalityData pd))
          = (\<lambda>r. orDefault (r ''Mod.'') ''N/A'') ` set filteredRows \<and>
        (\<forall>d\<in>set (modalityData pd).
            md_count d = length (filter (\<lambda>r. orDefault (r ''Mod.'') ''N/A'' = md_modality d) filteredRows)) \<and>
        sum_list (map md_count (modalityData pd)) = length filteredRows) \<and>
     (\<forall>d\<in>set (modalityData pd).
         md_percentage d = Some (if 0 < totalStudies pd
                                 then real (md_count d) / real (totalStudies pd) * 100 else 0)) \<and>
     aggregatedModalityData pd = modalityData pd \<and>
     (totalStudies pd = 0 \<longrightarrow> modalityData pd = []) \<and>
     percentageOf cnt 0 = Some 0"
proof -
  assume p: "processData parse c rows = Inr pd"
  then obtain fr where f: "filterRows (rowPasses parse c) rows = Inr fr"
    and pd: "modalityData pd = processedModalityData fr"
      "aggregatedModalityData pd = processedAggregatedModalityData fr"
      "totalStudies pd = length fr"
    by (auto simp: processData_def split: sum.splits)
  have m: "md_percentage d = Some (if 0 < length fr then real (md_count d) / real (length fr) * 100 else 0)"
    "md_count d = length (filter (\<lambda>r. orDefault (r ''Mod.'') ''N/A'' = md_modality d) fr)"
    if "d \<in> set (processedModalityData fr)" for d
    using processedModalityData_member[OF that] by (simp_all add: percentageOf_value)
  have z: "totalStudies pd = 0 \<longrightarrow> modalityData pd = []"
    using pd by (simp add: processedModalityData_Nil)
  have "filterRows (rowPasses parse c) rows = Inr fr \<and>
        totalStudies pd = length fr \<and>
        distinct (map md_modality (modalityData pd)) \<and>
        set (map md_modality (modalityData pd)) = (\<lambda>r. orDefault (r ''Mod.'') ''N/A'') ` set fr \<and>
        (\<forall>d\<in>set (modalityData pd).
            md_count d = length (filter (\<lambda>r. orDefault (r ''Mod.'') ''N/A'' = md_modality d) fr)) \<and>
        sum_list (map md_count (modalityData pd)) = length fr"
    using f pd(3) m(2) processedModalityData_modalities[of fr] unfolding pd(1) by blast
  then have "\<exists>filteredRows. filterRows (rowPasses parse c) rows = Inr filteredRows \<and>
        totalStudies pd = length filteredRows \<and>
        distinct (map md_modality (modalityData pd)) \<and>
        set (map md_modality (modalityData pd))
          = (\<lambda>r. orDefault (r ''Mod.'') ''N/A'') ` set filteredRows \<and>
        (\<forall>d\<in>set (modalityData pd).
            md_count d = length (filter (\<lambda>r. orDefault (r ''Mod.'') ''N/A'' = md_modality d) filteredRows)) \<and>
        sum_list (map md_count (modalityData pd)) = length filteredRows"
    by (rule exI)
  moreover have "\<forall>d\<in>set (modalityData pd).
         md_percentage d = Some (if 0 < totalStudies pd
                                 then real (md_count d) / real (totalStudies pd) * 100 else 0)"
    using pd m(1) by simp
  moreover have "aggregatedModalityData pd = modalityData pd"
    using pd by (simp add: processedAggregated_eq)
  moreover have "percentageOf cnt 0 = Some 0" by (simp add: percentageOf_def)
  ultimately show ?thesis using z by blast
qed

theorem modality_percentage_witness:
  "\<exists>pd. processData dateFnsParse staff_all_day [row_ct_0915, row_mr_0945, row_ct_1400] = Inr pd \<and>
        totalStudies pd = 3 \<and>
        (\<exists>d\<in>set (modalityData pd).
            md_modality d = ''CT'' \<and> md_count d = 2 \<and> md_percentage d = Some (200 / 3)) \<and>
        (\<exists>d\<in>set (modalityData pd).
            md_modality d = ''MR'' \<and> md_count d = 1 \<and> md_percentage d = Some (100 / 3))"
proof -
  let ?rows = "[row_ct_0915, row_mr_0945, row_ct_1400]"
  obtain pd where pd: "processData dateFnsParse staff_all_day ?rows = Inr pd"
    by (simp only: processData_def filterRows_all_day sum.case)
  note t = modality_percentage[OF pd]
  from t filterRows_all_day
  have tot: "totalStudies pd = 3"
    and mods: "set (map md_modality (modalityData pd))
                 = (\<lambda>r. orDefault (r ''Mod.'') ''N/A'') ` set ?rows"
    and cnt: "\<forall>d\<in>set (modalityData pd).
                md_count d = length (filter (\<lambda>r. orDefault (r ''Mod.'') ''N/A'' = md_modality d) ?rows)"
    by auto
  from t have pc: "\<forall>d\<in>set (modalityData pd).
         md_percentage d = Some (if 0 < totalStudies pd
                                 then real (md_count d) / real (totalStudies pd) * 100 else 0)"
    by blast
  have "''CT'' \<in> set (map md_modality (modalityData pd))"
    unfolding mods by (simp add: example_modalities)
  then obtain d1 where d1: "d1 \<in> set (modalityData pd)" "md_modality d1 = ''CT''" by auto
  have c1: "md_count d1 = 2" using cnt d1 by (simp add: example_modalities)
  have p1: "md_percentage d1 = Some (200 / 3)" using pc d1(1) c1 tot by simp
  have "''MR'' \<in> set (map md_modality (modalityData pd))"
    unfolding mods by (simp add: example_modalities)
  then obtain d2 where d2: "d2 \<in> set (modalityData pd)" "md_modality d2 = ''MR''" by auto
  have c2: "md_count d2 = 1" using cnt d2 by (simp add: example_modalities)
  have p2: "md_percentage d2 = Some (100 / 3)" using pc d2(1) c2 tot by simp
  from pd tot d1 c1 p1 d2 c2 p2 show ?thesis by blast
qed

end
